theory Spec2Isabelle
  imports Main
begin

section \<open>Data model (types.ts and the editor state of App)\<close>

text \<open>
  A position is a triple of numbers. Grid coordinates are produced by \<open>Math.floor\<close> and by
  adding axis normals, so they are modelled as integers; the addition is the one of
  JavaScript numbers (\<open>addNumber\<close> below).
\<close>

type_synonym Vector3 = "int \<times> int \<times> int"

record Voxel =
  position :: Vector3
  color :: string

datatype ToolType = PENCIL | ERASER | PAINT | PICKER | DUPLICATE

text \<open>
  The only runtime failure of the handlers is JavaScript's \<open>TypeError\<close>, raised when a
  property of \<open>undefined\<close> is read or written (\<open>voxels[index].color\<close> with an index that is
  not in the array) or when \<open>undefined\<close> is spread.
\<close>

datatype error = TypeError

text \<open>
  Voxels are JavaScript objects. The arrays of the editor (\<open>voxels\<close> and every history
  snapshot) are always fresh copies (\<open>[...voxels]\<close>, \<open>slice\<close>, \<open>filter\<close>), but the copies are
  shallow: they hold references to the same voxel objects. The model therefore keeps an
  explicit object store: \<open>objects\<close> is the list of all voxel objects ever allocated, a
  reference is an index into it, and an array of voxels is a list of references.
\<close>

type_synonym ref = nat

record App =
  objects :: "Voxel list"
  voxels :: "ref list"
  history :: "ref list list"
  historyStep :: int
  currentColor :: string
  currentTool :: ToolType

text \<open>
  The initial state of the component: \<open>useState([])\<close> for the voxels and the history,
  \<open>useState(-1)\<close> for the history step, \<open>'PENCIL'\<close> for the tool. \<open>DEFAULT_COLOR\<close> comes
  from a constants module and is a parameter here.
\<close>

definition initialApp :: "string \<Rightarrow> App" where
  "initialApp defaultColor =
     \<lparr>objects = [], voxels = [], history = [], historyStep = - 1,
      currentColor = defaultColor, currentTool = PENCIL\<rparr>"

text \<open>The voxels an array of references denotes: positions and colours, read through the store.\<close>

definition deref :: "Voxel list \<Rightarrow> ref list \<Rightarrow> Voxel list" where
  "deref objs rs = map (\<lambda>r. objs ! r) rs"

definition storeContent :: "App \<Rightarrow> Voxel list" where
  "storeContent s = deref (objects s) (voxels s)"

section \<open>JavaScript array primitives\<close>

text \<open>\<open>xs[i]\<close>: \<open>undefined\<close> (here \<open>None\<close>) outside the array.\<close>

definition nth_js :: "'a list \<Rightarrow> int \<Rightarrow> 'a option" where
  "nth_js xs i = (if 0 \<le> i \<and> i < int (length xs) then Some (xs ! nat i) else None)"

text \<open>\<open>xs.slice(0, e)\<close>: a negative end counts from the end of the array.\<close>

definition slice0 :: "'a list \<Rightarrow> int \<Rightarrow> 'a list" where
  "slice0 xs e =
     (let n = int (length xs);
          k = (if e < 0 then max (n + e) 0 else min e n)
      in take (nat k) xs)"

text \<open>\<open>xs.filter((_, i) => i !== index)\<close>, the loop over the indices written as a recursion.\<close>

fun filterNotIndex :: "int \<Rightarrow> nat \<Rightarrow> 'a list \<Rightarrow> 'a list" where
  "filterNotIndex index i [] = []"
| "filterNotIndex index i (x # xs) =
     (if int i \<noteq> index then x # filterNotIndex index (Suc i) xs
      else filterNotIndex index (Suc i) xs)"

section \<open>History management\<close>

definition recordHistory :: "ref list \<Rightarrow> App \<Rightarrow> App" where
  "recordHistory newVoxels s =
     (let pushed = slice0 (history s) (historyStep s + 1) @ [newVoxels];
          newHistory = (if length pushed > 20 then tl pushed else pushed)
      in s\<lparr>history := newHistory, historyStep := int (length newHistory) - 1\<rparr>)"

definition undo :: "App \<Rightarrow> error + App" where
  "undo s =
     (if historyStep s > 0 then
        (let prevStep = historyStep s - 1
         in case nth_js (history s) prevStep of
              None \<Rightarrow> Inl TypeError
            | Some snapshot \<Rightarrow> Inr (s\<lparr>voxels := snapshot, historyStep := prevStep\<rparr>))
      else Inr s)"

definition redo :: "App \<Rightarrow> error + App" where
  "redo s =
     (if historyStep s < int (length (history s)) - 1 then
        (let nextStep = historyStep s + 1
         in case nth_js (history s) nextStep of
              None \<Rightarrow> Inl TypeError
            | Some snapshot \<Rightarrow> Inr (s\<lparr>voxels := snapshot, historyStep := nextStep\<rparr>))
      else Inr s)"

section \<open>Voxel operations\<close>

text \<open>The test of \<open>voxels.some(...)\<close>: all three coordinates equal.\<close>

definition samePosition :: "Vector3 \<Rightarrow> Vector3 \<Rightarrow> bool" where
  "samePosition a b =
     (fst a = fst b \<and> fst (snd a) = fst (snd b) \<and> snd (snd a) = snd (snd b))"

definition existsAt :: "Vector3 \<Rightarrow> App \<Rightarrow> bool" where
  "existsAt pos s = list_ex (\<lambda>r. samePosition (position (objects s ! r)) pos) (voxels s)"

text \<open>
  \<open>overrideColor || currentColor\<close>: the override is used when it is truthy, and a string is
  falsy exactly when it is empty.
\<close>

definition orCurrent :: "string option \<Rightarrow> string \<Rightarrow> string" where
  "orCurrent overrideColor cur =
     (case overrideColor of
        None \<Rightarrow> cur
      | Some c \<Rightarrow> (if c = [] then cur else c))"

definition addVoxel :: "Vector3 \<Rightarrow> string option \<Rightarrow> App \<Rightarrow> error + App" where
  "addVoxel pos overrideColor s =
     (if \<not> existsAt pos s then
        (let r = length (objects s);
             newVoxels = voxels s @ [r]
         in Inr (recordHistory newVoxels
                  (s\<lparr>objects := objects s @
                                  [\<lparr>position = pos,
                                    color = orCurrent overrideColor (currentColor s)\<rparr>],
                     voxels := newVoxels\<rparr>)))
      else Inr s)"

definition removeVoxel :: "int \<Rightarrow> App \<Rightarrow> error + App" where
  "removeVoxel index s =
     (let newVoxels = filterNotIndex index 0 (voxels s)
      in Inr (recordHistory newVoxels (s\<lparr>voxels := newVoxels\<rparr>)))"

text \<open>
  \<open>newVoxels[index].color = currentColor\<close> writes the field of the voxel object itself,
  which every array holding that reference sees.
\<close>

definition updateVoxelColor :: "int \<Rightarrow> App \<Rightarrow> error + App" where
  "updateVoxelColor index s =
     (let newVoxels = voxels s
      in case nth_js newVoxels index of
           None \<Rightarrow> Inl TypeError
         | Some r \<Rightarrow>
             Inr (recordHistory newVoxels
                   (s\<lparr>objects := (objects s)[r := (objects s ! r)\<lparr>color := currentColor s\<rparr>],
                      voxels := newVoxels\<rparr>)))"

definition handlePickColor :: "int \<Rightarrow> App \<Rightarrow> error + App" where
  "handlePickColor index s =
     (case nth_js (voxels s) index of
        None \<Rightarrow> Inl TypeError
      | Some r \<Rightarrow> Inr (s\<lparr>currentColor := color (objects s ! r), currentTool := PENCIL\<rparr>))"

text \<open>\<open>handleClear\<close>; the answer of the confirmation dialog is a parameter.\<close>

definition handleClear :: "bool \<Rightarrow> App \<Rightarrow> error + App" where
  "handleClear confirmed s =
     (if confirmed then Inr (recordHistory [] (s\<lparr>voxels := []\<rparr>)) else Inr s)"

section \<open>Tool dispatch (handleVoxelClick of VoxelModel)\<close>

text \<open>
  \<open>position[k] + normal.k\<close> is an addition of JavaScript numbers, that is of IEEE-754
  doubles. Every integer of magnitude up to \<open>2^53 = 9007199254740992\<close> is a double and a
  sum within that range is exact. A larger sum is rounded to 53 significant bits, to the
  nearest double, ties to the even one: \<open>2^53 + 1\<close> is \<open>2^53\<close> again. (A sum of magnitude
  \<open>2^1024\<close> is \<open>Infinity\<close>, which is not an integer; a coordinate plus a component of a
  unit normal never gets there.)
\<close>

fun bitLength :: "nat \<Rightarrow> nat" where
  "bitLength n = (if n = 0 then 0 else Suc (bitLength (n div 2)))"

declare bitLength.simps [simp del]

definition roundNumber :: "int \<Rightarrow> int" where
  "roundNumber x =
     (let m = nat \<bar>x\<bar>
      in if m \<le> 9007199254740992 then x
         else
           (let u = 2 ^ (bitLength m - 53);
                q = m div u;
                r = m mod u;
                q' = (if 2 * r < u then q
                      else if u < 2 * r then q + 1
                      else if even q then q else q + 1)
            in sgn x * int (q' * u)))"

definition addNumber :: "int \<Rightarrow> int \<Rightarrow> int" where
  "addNumber a b = roundNumber (a + b)"

definition addNormal :: "Vector3 \<Rightarrow> Vector3 \<Rightarrow> Vector3" where
  "addNormal p n =
     (addNumber (fst p) (fst n), addNumber (fst (snd p)) (fst (snd n)),
      addNumber (snd (snd p)) (snd (snd n)))"

text \<open>
  The normal of a face of an axis-aligned cube: one component is 1 or -1, the others 0.
\<close>

definition axisNormal :: "Vector3 \<Rightarrow> bool" where
  "axisNormal n =
     (n = (1, 0, 0) \<or> n = (- 1, 0, 0) \<or> n = (0, 1, 0) \<or> n = (0, - 1, 0) \<or>
      n = (0, 0, 1) \<or> n = (0, 0, - 1))"

text \<open>Coordinates for which adding the component of a unit normal is exact.\<close>

definition safeCoordinates :: "Vector3 \<Rightarrow> bool" where
  "safeCoordinates p =
     (\<bar>fst p\<bar> < 9007199254740992 \<and> \<bar>fst (snd p)\<bar> < 9007199254740992 \<and>
      \<bar>snd (snd p)\<bar> < 9007199254740992)"

text \<open>
  \<open>faceNormal\<close> is \<open>e.face?.normal\<close>: \<open>None\<close> when the event carries no face. The component
  receives \<open>voxels\<close>, the tool and the four callbacks from App, so the dispatcher works on
  the same state. The last branch is \<open>case 'PENCIL': case 'DUPLICATE':\<close>; a tool has no
  other value.
\<close>

definition handleVoxelClick :: "Vector3 option \<Rightarrow> int \<Rightarrow> App \<Rightarrow> error + App" where
  "handleVoxelClick faceNormal index s =
     (case currentTool s of
        ERASER \<Rightarrow> removeVoxel index s
      | PAINT \<Rightarrow> updateVoxelColor index s
      | PICKER \<Rightarrow> handlePickColor index s
      | _ \<Rightarrow>
          (case faceNormal of
             None \<Rightarrow> Inr s
           | Some normal \<Rightarrow>
               (case nth_js (voxels s) index of
                  None \<Rightarrow> Inl TypeError
                | Some r \<Rightarrow>
                    (let sourceVoxel = objects s ! r;
                         newPos = addNormal (position sourceVoxel) normal;
                         colorToUse = (if currentTool s = DUPLICATE
                                       then Some (color sourceVoxel) else None)
                     in addVoxel newPos colorToUse s))))"

section \<open>The staged preview (handleAiRequest and updatePreviewColor of App)\<close>

text \<open>
  The preview state of App: the displayed voxels, the originals kept in a ref, and the
  override colour. \<open>updatePreviewColor\<close> reads and writes nothing else, and it never writes
  into a voxel object (it copies the array or builds new objects with \<open>{ ...v, color }\<close>),
  so the staged voxels are kept by value.
\<close>

record Preview =
  previewVoxels :: "Voxel list option"
  originalPreviewRef :: "Voxel list option"
  previewOverrideColor :: "string option"



text \<open>
  The colour arithmetic is not code of this repository: \<open>THREE.Color\<close> belongs to three.js
  and \<open>*\<close> and \<open>Math.min\<close> work on doubles. They are parameters, over any type \<open>'n\<close> of
  numbers: \<open>colorGetHSL c\<close> is \<open>new THREE.Color(c).getHSL(...)\<close> as the triple (h, s, l),
  \<open>colorSetHSLHex h s l\<close> is \<open>new THREE.Color().setHSL(h, s, l).getHexString()\<close>,
  \<open>times1_2 x\<close> is \<open>x * 1.2\<close> and \<open>mathMin\<close> is \<open>Math.min\<close>.
\<close>

record 'n ColorLib =
  colorGetHSL :: "string \<Rightarrow> 'n \<times> 'n \<times> 'n"
  colorSetHSLHex :: "'n \<Rightarrow> 'n \<Rightarrow> 'n \<Rightarrow> string"
  times1_2 :: "'n \<Rightarrow> 'n"
  mathMin :: "'n \<Rightarrow> 'n \<Rightarrow> 'n"

text \<open>The function mapped over the originals in the recolour branch.\<close>

definition recolorVoxel :: "'n ColorLib \<Rightarrow> 'n \<times> 'n \<times> 'n \<Rightarrow> Voxel \<Rightarrow> Voxel" where
  "recolorVoxel lib targetHsl v =
     (let voxelHsl = colorGetHSL lib (color v)
      in v\<lparr>color :=
             CHR ''#'' #
             colorSetHSLHex lib (fst targetHsl)
               (mathMin lib (fst (snd targetHsl)) (times1_2 lib (fst (snd voxelHsl))))
               (snd (snd voxelHsl))\<rparr>)"

text \<open>\<open>!hex\<close> holds for \<open>null\<close> and for the empty string.\<close>

definition updatePreviewColor :: "'n ColorLib \<Rightarrow> string option \<Rightarrow> Preview \<Rightarrow> Preview" where
  "updatePreviewColor lib hex p =
     (let p1 = p\<lparr>previewOverrideColor := hex\<rparr>
      in case originalPreviewRef p of
           None \<Rightarrow> p1
         | Some original \<Rightarrow>
             (case hex of
                None \<Rightarrow> p1\<lparr>previewVoxels := Some original\<rparr>
              | Some target \<Rightarrow>
                  (if target = [] then p1\<lparr>previewVoxels := Some original\<rparr>
                   else
                     (let targetHsl = colorGetHSL lib target;
                          updated = map (recolorVoxel lib targetHsl) original
                      in p1\<lparr>previewVoxels := Some updated\<rparr>))))"

section \<open>Events\<close>

text \<open>
  An event handler that throws leaves the React state as it was: in every handler above the
  failing expression is evaluated before the first state setter is called.
\<close>

definition exec :: "(App \<Rightarrow> error + App) \<Rightarrow> App \<Rightarrow> App" where
  "exec h s = (case h s of Inl _ \<Rightarrow> s | Inr s' \<Rightarrow> s')"

datatype Event =
    AddVoxel Vector3 "string option"
  | RemoveVoxel int
  | UpdateVoxelColor int
  | PickColor int
  | VoxelClick "Vector3 option" int
  | GridClick Vector3
  | Clear bool
  | Undo
  | Redo
  | SetCurrentColor string
  | SetCurrentTool ToolType

fun handler :: "Event \<Rightarrow> App \<Rightarrow> error + App" where
  "handler (AddVoxel pos c) s = addVoxel pos c s"
| "handler (RemoveVoxel i) s = removeVoxel i s"
| "handler (UpdateVoxelColor i) s = updateVoxelColor i s"
| "handler (PickColor i) s = handlePickColor i s"
| "handler (VoxelClick n i) s = handleVoxelClick n i s"
| "handler (GridClick pos) s = addVoxel pos None s"
| "handler (Clear b) s = handleClear b s"
| "handler Undo s = undo s"
| "handler Redo s = redo s"
| "handler (SetCurrentColor c) s = Inr (s\<lparr>currentColor := c\<rparr>)"
| "handler (SetCurrentTool t) s = Inr (s\<lparr>currentTool := t\<rparr>)"

fun runEvents :: "Event list \<Rightarrow> App \<Rightarrow> App" where
  "runEvents [] s = s"
| "runEvents (e # es) s = runEvents es (exec (handler e) s)"

section \<open>Well-formed states\<close>

text \<open>
  JavaScript has no dangling references: every reference held by an array points to an
  allocated object.
\<close>

definition validRefs :: "Voxel list \<Rightarrow> ref list \<Rightarrow> bool" where
  "validRefs objs rs = list_all (\<lambda>r. r < length objs) rs"

text \<open>An array of voxels with valid references and no position used twice.\<close>

definition validSnapshot :: "Voxel list \<Rightarrow> ref list \<Rightarrow> bool" where
  "validSnapshot objs rs =
     (validRefs objs rs \<and> distinct (map (\<lambda>r. position (objs ! r)) rs))"

text \<open>
  The invariant of the editor state: the store and every snapshot are valid, the history
  holds at most 20 snapshots, the cursor is \<open>-1\<close> or an index of the history, and a cursor
  that is an index points at a snapshot holding the references of the store.
\<close>

definition appInv :: "App \<Rightarrow> bool" where
  "appInv s =
     (validSnapshot (objects s) (voxels s) \<and>
      list_all (validSnapshot (objects s)) (history s) \<and>
      length (history s) \<le> 20 \<and>
      - 1 \<le> historyStep s \<and> historyStep s < int (length (history s)) \<and>
      (0 \<le> historyStep s \<longrightarrow> history s ! nat (historyStep s) = voxels s))"

definition noDuplicatePositions :: "Voxel list \<Rightarrow> bool" where
  "noDuplicatePositions vs = distinct (map position vs)"

section \<open>Scenarios\<close>

text \<open>The sequence \<open>record a; record b; undo; record c\<close> on the history.\<close>

definition recordUndoRecord :: "ref list \<Rightarrow> ref list \<Rightarrow> ref list \<Rightarrow> App \<Rightarrow> App" where
  "recordUndoRecord a b c s =
     recordHistory c (exec undo (recordHistory b (recordHistory a s)))"

text \<open>
  A store holding one red voxel at the origin, with green as the current colour and the
  history holding that store as its only snapshot (the state after loading such a project).
\<close>

definition exampleApp :: App where
  "exampleApp =
     \<lparr>objects = [\<lparr>position = (0, 0, 0), color = ''#ff0000''\<rparr>], voxels = [0],
      history = [[0]], historyStep = 0,
      currentColor = ''#00ff00'', currentTool = PENCIL\<rparr>"

text \<open>A short editing session: adds (one of them on an occupied cell), a recolour, a removal.\<close>

definition exampleEvents :: "Event list" where
  "exampleEvents =
     [AddVoxel (0, 0, 0) None, AddVoxel (0, 0, 0) (Some ''#ff0000''),
      AddVoxel (1, 0, 0) (Some ''#ff0000''), UpdateVoxelColor 1, RemoveVoxel 0,
      AddVoxel (0, 0, 0) (Some ''#0000ff'')]"

text \<open>Pressing undo \<open>k\<close> times.\<close>

fun undoTimes :: "nat \<Rightarrow> App \<Rightarrow> App" where
  "undoTimes 0 s = s"
| "undoTimes (Suc k) s = undoTimes k (exec undo s)"

text \<open>
  The events that change the store and record it, other than a recolouring: an add at a
  free cell (through \<open>addVoxel\<close> or a click on the grid), a removal, a confirmed clear.
  \<open>allRecord es s\<close> says that each event of \<open>es\<close> is one of these in the state it is run in.
\<close>

fun recordsEdit :: "Event \<Rightarrow> App \<Rightarrow> bool" where
  "recordsEdit (AddVoxel p c) s = (\<not> existsAt p s)"
| "recordsEdit (GridClick p) s = (\<not> existsAt p s)"
| "recordsEdit (RemoveVoxel i) s = True"
| "recordsEdit (Clear b) s = b"
| "recordsEdit _ s = False"

fun allRecord :: "Event list \<Rightarrow> App \<Rightarrow> bool" where
  "allRecord [] s = True"
| "allRecord (e # es) s = (recordsEdit e s \<and> allRecord es (exec (handler e) s))"

text \<open>The entries of the history up to the cursor: what the next record keeps.\<close>

definition live :: "App \<Rightarrow> ref list list" where
  "live s = slice0 (history s) (historyStep s + 1)"

text \<open>
  A state whose history is full with the cursor on the last entry: 19 voxels added one
  after the other to a loaded empty project.
\<close>

definition fullHistoryApp :: App where
  "fullHistoryApp =
     \<lparr>objects = map (\<lambda>i. \<lparr>position = (int i, 0, 0), color = ''#00ff00''\<rparr>) [0..<19],
      voxels = [0..<19],
      history = map (\<lambda>n. [0..<n]) [0..<20], historyStep = 19,
      currentColor = ''#00ff00'', currentTool = PENCIL\<rparr>"

text \<open>
  Two voxels next to each other, then the clone tool; and one voxel, then the clone tool.
\<close>

definition neighbourEvents :: "Event list" where
  "neighbourEvents =
     [AddVoxel (0, 0, 0) (Some ''#ff0000''), AddVoxel (1, 0, 0) (Some ''#0000ff''),
      SetCurrentTool DUPLICATE]"

definition cloneReadyEvents :: "Event list" where
  "cloneReadyEvents = [AddVoxel (0, 0, 0) (Some ''#ff0000''), SetCurrentTool DUPLICATE]"

text \<open>Twenty adds in a row in a new session: the history is full, the cursor is 19.\<close>

definition twentyAdds :: "Event list" where
  "twentyAdds = map (\<lambda>i. AddVoxel (int i, 0, 0) None) [0..<20]"



section \<open>Basic facts\<close>

subsection \<open>Recording, undo and redo\<close>

lemma samePosition_eq [simp]: "samePosition a b = (a = b)"
  by (auto simp: samePosition_def prod_eq_iff)

lemma filterNotIndex_outside:
  "index < int i \<or> int i + int (length xs) \<le> index \<Longrightarrow> filterNotIndex index i xs = xs"
  by (induction xs arbitrary: i) auto

lemma recordHistory_fields [simp]:
  "voxels (recordHistory v s) = voxels s"
  "objects (recordHistory v s) = objects s"
  "currentColor (recordHistory v s) = currentColor s"
  "currentTool (recordHistory v s) = currentTool s"
  by (simp_all add: recordHistory_def Let_def)

lemma recordHistory_step:
  "historyStep (recordHistory v s) = int (length (history (recordHistory v s))) - 1"
  by (simp add: recordHistory_def Let_def)

lemma recordHistory_nonempty: "history (recordHistory v s) \<noteq> []"
  by (auto simp: recordHistory_def Let_def dest!: arg_cong[where f=length])

lemma recordHistory_last: "last (history (recordHistory v s)) = v"
  by (cases "slice0 (history s) (historyStep s + 1)") (simp_all add: recordHistory_def Let_def)

lemma redo_recordHistory: "redo (recordHistory v s) = Inr (recordHistory v s)"
  by (simp add: redo_def recordHistory_step)

lemma existsAt_recordHistory [simp]: "existsAt p (recordHistory v s) = existsAt p s"
  by (simp add: existsAt_def)

lemma addVoxel_occupied: "existsAt p s \<Longrightarrow> addVoxel p c s = Inr s"
  by (simp add: addVoxel_def)

lemma existsAt_after_add: "existsAt p (exec (addVoxel p c) s)"
  by (auto simp: exec_def addVoxel_def Let_def existsAt_def)

lemma slice0_length: "length (slice0 xs e) \<le> length xs"
  by (simp add: slice0_def Let_def)

lemma slice0_take: "0 \<le> e \<Longrightarrow> slice0 xs e = take (nat e) xs"
  by (simp add: slice0_def Let_def min_def)

lemma recordHistory_history:
  "history (recordHistory v s) =
     (if 20 \<le> length (slice0 (history s) (historyStep s + 1))
      then tl (slice0 (history s) (historyStep s + 1)) @ [v]
      else slice0 (history s) (historyStep s + 1) @ [v])"
  by (cases "slice0 (history s) (historyStep s + 1)") (simp_all add: recordHistory_def Let_def)

lemma slice0_cursor:
  "0 \<le> historyStep s \<Longrightarrow> historyStep s < int (length (history s)) \<Longrightarrow>
   slice0 (history s) (historyStep s + 1) = take (Suc (nat (historyStep s))) (history s)"
  by (simp add: slice0_def Let_def min_def nat_add_distrib)

lemma slice0_recorded:
  "slice0 (history (recordHistory v s)) (historyStep (recordHistory v s) + 1) =
   history (recordHistory v s)"
  by (simp add: recordHistory_step slice0_def Let_def)

lemma undo_fields [simp]:
  "history (exec undo s) = history s"
  "objects (exec undo s) = objects s"
  "currentColor (exec undo s) = currentColor s"
  "currentTool (exec undo s) = currentTool s"
  by (simp_all add: exec_def undo_def Let_def split: option.splits)

text \<open>An undo right after a record goes back to the snapshot the cursor was on.\<close>

lemma undo_after_record:
  assumes lo: "0 \<le> historyStep s" and hi: "historyStep s < int (length (history s))"
  shows "undo (recordHistory v s) =
           Inr ((recordHistory v s)\<lparr>voxels := history s ! nat (historyStep s),
                  historyStep := historyStep (recordHistory v s) - 1\<rparr>)"
proof -
  define pre where "pre = slice0 (history s) (historyStep s + 1)"
  define k where "k = nat (historyStep s)"
  have klt: "k < length (history s)" using lo hi by (simp add: k_def)
  have pre_eq: "pre = take (Suc k) (history s)"
    unfolding pre_def k_def by (rule slice0_cursor[OF lo hi])
  have len: "length pre = Suc k" using klt by (simp add: pre_eq)
  have lastpre: "pre ! k = history s ! k" by (simp add: pre_eq)
  have hist: "history (recordHistory v s) =
                (if 20 \<le> length pre then tl pre @ [v] else pre @ [v])"
    unfolding pre_def by (rule recordHistory_history)
  show ?thesis
  proof (cases "20 \<le> length pre")
    case True
    then have h: "history (recordHistory v s) = tl pre @ [v]"
      by (simp add: hist)
    have ltl: "length (tl pre) = k" using len by simp
    have k1: "1 \<le> k" using True len by simp
    have nth: "(tl pre @ [v]) ! (k - 1) = history s ! k"
      using k1 ltl lastpre by (simp add: nth_append nth_tl)
    have st: "historyStep (recordHistory v s) = int k"
      using h ltl by (simp add: recordHistory_step)
    show ?thesis
      using k1 nth ltl
      by (simp add: undo_def st Let_def nth_js_def h nat_diff_distrib flip: k_def)
  next
    case False
    then have h: "history (recordHistory v s) = pre @ [v]"
      by (simp add: hist)
    have st: "historyStep (recordHistory v s) = int k + 1"
      using h len by (simp add: recordHistory_step)
    have nth: "(pre @ [v]) ! k = history s ! k"
      using len lastpre by (simp add: nth_append)
    show ?thesis
      using nth len
      by (simp add: undo_def st Let_def nth_js_def h flip: k_def)
  qed
qed

lemma recordHistory_cursor_bounds:
  "0 \<le> historyStep (recordHistory v s)"
  "historyStep (recordHistory v s) < int (length (history (recordHistory v s)))"
  using recordHistory_nonempty[of v s] by (simp_all add: recordHistory_step Suc_le_eq)

lemma recordHistory_at_cursor:
  "history (recordHistory v s) ! nat (historyStep (recordHistory v s)) = v"
proof -
  obtain n where n: "length (history (recordHistory v s)) = Suc n"
    using recordHistory_nonempty[of v s] by (cases "history (recordHistory v s)") auto
  have "last (history (recordHistory v s)) = history (recordHistory v s) ! n"
    using n recordHistory_nonempty[of v s] by (simp add: last_conv_nth)
  then show ?thesis
    using n by (simp add: recordHistory_step recordHistory_last)
qed

lemma exec_undo_two_records:
  "exec undo (recordHistory b (recordHistory a s)) =
     (recordHistory b (recordHistory a s))
       \<lparr>voxels := a, historyStep := historyStep (recordHistory b (recordHistory a s)) - 1\<rparr>"
  by (simp add: exec_def undo_after_record[OF recordHistory_cursor_bounds] recordHistory_at_cursor)

lemma short_history_two_records:
  assumes "length (slice0 (history s) (historyStep s + 1)) \<le> 18"
  shows "history (recordHistory b (recordHistory a s)) =
           slice0 (history s) (historyStep s + 1) @ [a, b]"
    and "history (recordUndoRecord a b c s) = slice0 (history s) (historyStep s + 1) @ [a, c]"
proof -
  define pre where "pre = slice0 (history s) (historyStep s + 1)"
  have len: "length pre \<le> 18" using assms by (simp add: pre_def)
  have h1: "history (recordHistory a s) = pre @ [a]"
    using len by (simp add: recordHistory_history flip: pre_def)
  have sl1: "slice0 (history (recordHistory a s)) (historyStep (recordHistory a s) + 1) = pre @ [a]"
    using slice0_recorded[of a s] by (simp only: h1)
  have h2: "history (recordHistory b (recordHistory a s)) = pre @ [a, b]"
    using len by (simp add: recordHistory_history[of b] sl1)
  show "history (recordHistory b (recordHistory a s)) =
           slice0 (history s) (historyStep s + 1) @ [a, b]"
    using h2 by (simp add: pre_def)
  have st2: "historyStep (recordHistory b (recordHistory a s)) = int (length pre) + 1"
    by (simp add: recordHistory_step[of b] h2)
  have sl: "slice0 (pre @ [a, b]) (int (length pre) + 1) = pre @ [a]"
    by (simp add: slice0_def Let_def min_def nat_add_distrib)
  have "history (recordUndoRecord a b c s) = pre @ [a, c]"
    unfolding recordUndoRecord_def
    using len by (subst recordHistory_history) (simp add: exec_undo_two_records h2 st2 sl)
  then show "history (recordUndoRecord a b c s) = slice0 (history s) (historyStep s + 1) @ [a, c]"
    by (simp add: pre_def)
qed

subsection \<open>The store content and out-of-range indices\<close>

lemma deref_append_objects:
  "validRefs objs rs \<Longrightarrow> deref (objs @ extra) rs = deref objs rs"
  by (induction rs) (simp_all add: deref_def validRefs_def nth_append)

lemma deref_app: "deref objs (xs @ ys) = deref objs xs @ deref objs ys"
  by (simp add: deref_def)

lemma storeContent_recordHistory [simp]:
  "storeContent (recordHistory v s) = storeContent s"
  by (simp add: storeContent_def)

lemma addVoxel_free:
  "\<not> existsAt p s \<Longrightarrow>
   addVoxel p c s =
     Inr (recordHistory (voxels s @ [length (objects s)])
           (s\<lparr>objects := objects s @ [\<lparr>position = p, color = orCurrent c (currentColor s)\<rparr>],
              voxels := voxels s @ [length (objects s)]\<rparr>))"
  by (simp add: addVoxel_def Let_def)

lemma storeContent_addVoxel:
  assumes "\<not> existsAt p s" "validRefs (objects s) (voxels s)"
  shows "storeContent (exec (addVoxel p c) s) =
           storeContent s @ [\<lparr>position = p, color = orCurrent c (currentColor s)\<rparr>]"
proof -
  let ?v = "\<lparr>position = p, color = orCurrent c (currentColor s)\<rparr>"
  have new: "deref (objects s @ [?v]) [length (objects s)] = [?v]"
    by (simp add: deref_def)
  have old: "deref (objects s @ [?v]) (voxels s) = deref (objects s) (voxels s)"
    using assms(2) by (rule deref_append_objects)
  show ?thesis
    using assms(1) by (simp add: exec_def addVoxel_free storeContent_def deref_app new old)
qed

lemma handleVoxelClick_duplicate:
  "currentTool s = DUPLICATE \<Longrightarrow> nth_js (voxels s) index = Some r \<Longrightarrow>
   handleVoxelClick (Some n) index s =
     addVoxel (addNormal (position (objects s ! r)) n) (Some (color (objects s ! r))) s"
  by (simp add: handleVoxelClick_def Let_def)

lemma existsAt_currentColor [simp]: "existsAt p (s\<lparr>currentColor := cc\<rparr>) = existsAt p s"
  by (simp add: existsAt_def)

lemma storeContent_currentColor [simp]: "storeContent (s\<lparr>currentColor := cc\<rparr>) = storeContent s"
  by (simp add: storeContent_def)

lemma removeVoxel_outside:
  assumes "index < 0 \<or> int (length (voxels s)) \<le> index"
  shows "removeVoxel index s = Inr (recordHistory (voxels s) s)"
proof -
  have "filterNotIndex index 0 (voxels s) = voxels s"
    using assms by (intro filterNotIndex_outside) simp
  then show ?thesis by (simp add: removeVoxel_def)
qed

lemma updateVoxelColor_outside:
  "index < 0 \<or> int (length (voxels s)) \<le> index \<Longrightarrow> updateVoxelColor index s = Inl TypeError"
  by (auto simp: updateVoxelColor_def nth_js_def)

subsection \<open>The invariant\<close>

lemma validSnapshot_alloc:
  "validSnapshot objs rs \<Longrightarrow> validSnapshot (objs @ [v]) rs"
proof -
  assume a: "validSnapshot objs rs"
  then have v: "validRefs objs rs" by (simp add: validSnapshot_def)
  then have same: "map (\<lambda>r. position ((objs @ [v]) ! r)) rs = map (\<lambda>r. position (objs ! r)) rs"
    by (auto simp: validRefs_def list_all_iff nth_append)
  have "validRefs (objs @ [v]) rs"
    using v by (auto simp: validRefs_def list_all_iff)
  then show ?thesis
    unfolding validSnapshot_def same using a by (simp add: validSnapshot_def)
qed

lemma position_recolor:
  "position ((objs[r := (objs ! r)\<lparr>color := c\<rparr>]) ! x) = position (objs ! x)"
  by (cases "r < length objs") (simp_all add: nth_list_update list_update_beyond)

lemma validSnapshot_recolor:
  "validSnapshot objs rs \<Longrightarrow> validSnapshot (objs[r := (objs ! r)\<lparr>color := c\<rparr>]) rs"
  by (simp add: validSnapshot_def validRefs_def position_recolor)

lemma set_filterNotIndex: "set (filterNotIndex index i xs) \<subseteq> set xs"
  by (induction xs arbitrary: i) auto

lemma distinct_map_filterNotIndex:
  "distinct (map f xs) \<Longrightarrow> distinct (map f (filterNotIndex index i xs))"
proof (induction xs arbitrary: i)
  case Nil
  then show ?case by simp
next
  case (Cons x xs)
  have "f x \<notin> f ` set (filterNotIndex index (Suc i) xs)"
    using Cons.prems set_filterNotIndex[of index "Suc i" xs] by auto
  then show ?case using Cons by simp
qed

lemma validSnapshot_filterNotIndex:
  "validSnapshot objs rs \<Longrightarrow> validSnapshot objs (filterNotIndex index i rs)"
  using set_filterNotIndex[of index i rs]
  by (auto simp: validSnapshot_def validRefs_def list_all_iff distinct_map_filterNotIndex)

lemma validSnapshot_Nil [simp]: "validSnapshot objs []"
  by (simp add: validSnapshot_def validRefs_def)

lemma validSnapshot_add:
  assumes "validSnapshot objs rs" and "\<forall>r\<in>set rs. position (objs ! r) \<noteq> position v"
  shows "validSnapshot (objs @ [v]) (rs @ [length objs])"
proof -
  have v: "validRefs objs rs" using assms(1) by (simp add: validSnapshot_def)
  have same: "map (\<lambda>r. position ((objs @ [v]) ! r)) rs = map (\<lambda>r. position (objs ! r)) rs"
    using v by (auto simp: validRefs_def list_all_iff nth_append)
  have fresh: "position v \<notin> (\<lambda>r. position (objs ! r)) ` set rs"
    using assms(2) by auto
  have "validRefs (objs @ [v]) (rs @ [length objs])"
    using v by (auto simp: validRefs_def list_all_iff)
  moreover have "distinct (map (\<lambda>r. position (objs ! r)) rs @ [position v])"
    using assms(1) fresh by (simp add: validSnapshot_def)
  then have "distinct (map (\<lambda>r. position ((objs @ [v]) ! r)) (rs @ [length objs]))"
    unfolding map_append same by simp
  ultimately show ?thesis by (simp add: validSnapshot_def)
qed

lemma existsAt_iff: "existsAt p s = (\<exists>r\<in>set (voxels s). position (objects s ! r) = p)"
  by (simp add: existsAt_def list_ex_iff)

text \<open>What a record does to the history part of the invariant.\<close>

lemma list_all_slice0: "list_all P xs \<Longrightarrow> list_all P (slice0 xs e)"
  by (auto simp: slice0_def Let_def list_all_iff dest: in_set_takeD)

lemma list_all_tl: "list_all P xs \<Longrightarrow> list_all P (tl xs)"
  by (cases xs) simp_all

lemma recordHistory_list_all:
  "list_all P (history s) \<Longrightarrow> P v \<Longrightarrow> list_all P (history (recordHistory v s))"
  by (simp add: recordHistory_history list_all_slice0 list_all_tl)

lemma recordHistory_length:
  "length (history s) \<le> 20 \<Longrightarrow> length (history (recordHistory v s)) \<le> 20"
  using slice0_length[of "history s" "historyStep s + 1"]
  by (auto simp: recordHistory_history)

lemma appInv_record:
  assumes "validSnapshot (objects s) (voxels s)"
    and "list_all (validSnapshot (objects s)) (history s)"
    and "length (history s) \<le> 20"
  shows "appInv (recordHistory (voxels s) s)"
  unfolding appInv_def
  using assms recordHistory_cursor_bounds[of "voxels s" s] recordHistory_at_cursor[of "voxels s" s]
  by (simp add: recordHistory_list_all recordHistory_length)

text \<open>Every handler keeps the invariant.\<close>

lemma appInv_addVoxel: "appInv s \<Longrightarrow> appInv (exec (addVoxel p c) s)"
proof (cases "existsAt p s")
  case True
  assume "appInv s"
  then show ?thesis using True by (simp add: exec_def addVoxel_occupied)
next
  case False
  assume inv: "appInv s"
  let ?v = "\<lparr>position = p, color = orCurrent c (currentColor s)\<rparr>"
  let ?s1 = "s\<lparr>objects := objects s @ [?v], voxels := voxels s @ [length (objects s)]\<rparr>"
  have free: "\<forall>r\<in>set (voxels s). position (objects s ! r) \<noteq> position ?v"
    using False by (simp add: existsAt_iff)
  have a: "validSnapshot (objects ?s1) (voxels ?s1)"
    using inv free by (simp add: appInv_def validSnapshot_add)
  have b: "list_all (validSnapshot (objects ?s1)) (history ?s1)"
    using inv by (auto simp: appInv_def list_all_iff validSnapshot_alloc)
  have c: "length (history ?s1) \<le> 20"
    using inv by (simp add: appInv_def)
  have "appInv (recordHistory (voxels ?s1) ?s1)"
    using a b c by (rule appInv_record)
  then show ?thesis using False by (simp add: exec_def addVoxel_free)
qed

lemma appInv_removeVoxel: "appInv s \<Longrightarrow> appInv (exec (removeVoxel i) s)"
proof -
  assume inv: "appInv s"
  let ?s1 = "s\<lparr>voxels := filterNotIndex i 0 (voxels s)\<rparr>"
  have a: "validSnapshot (objects ?s1) (voxels ?s1)"
    using inv by (simp add: appInv_def validSnapshot_filterNotIndex)
  have b: "list_all (validSnapshot (objects ?s1)) (history ?s1)"
    using inv by (simp add: appInv_def)
  have c: "length (history ?s1) \<le> 20"
    using inv by (simp add: appInv_def)
  have "appInv (recordHistory (voxels ?s1) ?s1)"
    using a b c by (rule appInv_record)
  then show ?thesis by (simp add: exec_def removeVoxel_def Let_def)
qed

lemma appInv_updateVoxelColor: "appInv s \<Longrightarrow> appInv (exec (updateVoxelColor i) s)"
proof (cases "nth_js (voxels s) i")
  case None
  assume "appInv s"
  then show ?thesis using None by (simp add: exec_def updateVoxelColor_def)
next
  case (Some r)
  assume inv: "appInv s"
  let ?s1 = "s\<lparr>objects := (objects s)[r := (objects s ! r)\<lparr>color := currentColor s\<rparr>],
               voxels := voxels s\<rparr>"
  have a: "validSnapshot (objects ?s1) (voxels ?s1)"
    using inv by (simp add: appInv_def validSnapshot_recolor)
  have b: "list_all (validSnapshot (objects ?s1)) (history ?s1)"
    using inv by (auto simp: appInv_def list_all_iff validSnapshot_recolor)
  have c: "length (history ?s1) \<le> 20"
    using inv by (simp add: appInv_def)
  have "appInv (recordHistory (voxels ?s1) ?s1)"
    using a b c by (rule appInv_record)
  then show ?thesis using Some by (simp add: exec_def updateVoxelColor_def)
qed

lemma appInv_handlePickColor: "appInv s \<Longrightarrow> appInv (exec (handlePickColor i) s)"
  by (cases "nth_js (voxels s) i") (simp_all add: exec_def handlePickColor_def appInv_def)

lemma appInv_handleClear: "appInv s \<Longrightarrow> appInv (exec (handleClear b) s)"
proof (cases b)
  case False
  assume "appInv s"
  then show ?thesis using False by (simp add: exec_def handleClear_def)
next
  case True
  assume inv: "appInv s"
  let ?s1 = "s\<lparr>voxels := []\<rparr>"
  have "appInv (recordHistory (voxels ?s1) ?s1)"
    using inv by (intro appInv_record) (simp_all add: appInv_def)
  then show ?thesis using True by (simp add: exec_def handleClear_def)
qed

lemma appInv_move_cursor:
  assumes "appInv s" and "0 \<le> k" and "k < int (length (history s))"
  shows "appInv (s\<lparr>voxels := history s ! nat k, historyStep := k\<rparr>)"
proof -
  have "nat k < length (history s)" using assms(2,3) by simp
  then have "history s ! nat k \<in> set (history s)" by (rule nth_mem)
  then have "validSnapshot (objects s) (history s ! nat k)"
    using assms(1) by (simp add: appInv_def list_all_iff)
  then show ?thesis using assms by (simp add: appInv_def)
qed

lemma appInv_undo: "appInv s \<Longrightarrow> appInv (exec undo s)"
proof (cases "0 < historyStep s")
  case False
  assume "appInv s"
  then show ?thesis using False by (simp add: exec_def undo_def)
next
  case True
  assume inv: "appInv s"
  have hi: "historyStep s - 1 < int (length (history s))"
    using inv by (simp add: appInv_def)
  have "appInv (s\<lparr>voxels := history s ! nat (historyStep s - 1), historyStep := historyStep s - 1\<rparr>)"
    using inv True hi by (intro appInv_move_cursor) simp_all
  then show ?thesis using True hi by (simp add: exec_def undo_def nth_js_def Let_def)
qed

lemma appInv_redo: "appInv s \<Longrightarrow> appInv (exec redo s)"
proof (cases "historyStep s < int (length (history s)) - 1")
  case False
  assume "appInv s"
  then show ?thesis using False by (simp add: exec_def redo_def)
next
  case True
  assume inv: "appInv s"
  have lo: "0 \<le> historyStep s + 1"
    using inv by (simp add: appInv_def)
  have "appInv (s\<lparr>voxels := history s ! nat (historyStep s + 1), historyStep := historyStep s + 1\<rparr>)"
    using inv True lo by (intro appInv_move_cursor) simp_all
  then show ?thesis using True lo by (simp add: exec_def redo_def nth_js_def Let_def)
qed

lemma appInv_handleVoxelClick: "appInv s \<Longrightarrow> appInv (exec (handleVoxelClick n i) s)"
proof -
  assume inv: "appInv s"
  have exec_eq: "\<And>f g. f s = g s \<Longrightarrow> exec f s = exec g s" by (simp add: exec_def)
  show ?thesis
  proof (cases "currentTool s")
    case ERASER
    then have "exec (handleVoxelClick n i) s = exec (removeVoxel i) s"
      by (intro exec_eq) (simp add: handleVoxelClick_def)
    then show ?thesis using inv by (simp add: appInv_removeVoxel)
  next
    case PAINT
    then have "exec (handleVoxelClick n i) s = exec (updateVoxelColor i) s"
      by (intro exec_eq) (simp add: handleVoxelClick_def)
    then show ?thesis using inv by (simp add: appInv_updateVoxelColor)
  next
    case PICKER
    then have "exec (handleVoxelClick n i) s = exec (handlePickColor i) s"
      by (intro exec_eq) (simp add: handleVoxelClick_def)
    then show ?thesis using inv by (simp add: appInv_handlePickColor)
  next
    case PENCIL
    then show ?thesis
      using inv appInv_addVoxel[OF inv]
      by (auto simp: handleVoxelClick_def exec_def Let_def split: option.splits)
  next
    case DUPLICATE
    then show ?thesis
      using inv appInv_addVoxel[OF inv]
      by (auto simp: handleVoxelClick_def exec_def Let_def split: option.splits)
  qed
qed

lemma exec_handler:
  "exec (handler (AddVoxel p c)) s = exec (addVoxel p c) s"
  "exec (handler (RemoveVoxel i)) s = exec (removeVoxel i) s"
  "exec (handler (UpdateVoxelColor i)) s = exec (updateVoxelColor i) s"
  "exec (handler (PickColor i)) s = exec (handlePickColor i) s"
  "exec (handler (VoxelClick n i)) s = exec (handleVoxelClick n i) s"
  "exec (handler (GridClick p)) s = exec (addVoxel p None) s"
  "exec (handler (Clear b)) s = exec (handleClear b) s"
  "exec (handler Undo) s = exec undo s"
  "exec (handler Redo) s = exec redo s"
  "exec (handler (SetCurrentColor col)) s = s\<lparr>currentColor := col\<rparr>"
  "exec (handler (SetCurrentTool t)) s = s\<lparr>currentTool := t\<rparr>"
  by (simp_all add: exec_def)

lemma appInv_handler: "appInv s \<Longrightarrow> appInv (exec (handler e) s)"
proof (cases e)
  case (SetCurrentColor c)
  assume "appInv s"
  then show ?thesis using SetCurrentColor by (simp add: exec_handler appInv_def)
next
  case (SetCurrentTool t)
  assume "appInv s"
  then show ?thesis using SetCurrentTool by (simp add: exec_handler appInv_def)
qed (simp_all add: exec_handler appInv_addVoxel appInv_removeVoxel appInv_updateVoxelColor
       appInv_handlePickColor appInv_handleVoxelClick appInv_handleClear appInv_undo
       appInv_redo)

lemma appInv_initialApp: "appInv (initialApp c)"
  by (simp add: appInv_def initialApp_def)

lemma appInv_runEvents: "appInv s \<Longrightarrow> appInv (runEvents evs s)"
  by (induction evs arbitrary: s) (simp_all add: appInv_handler)

lemma noDuplicatePositions_appInv:
  "appInv s \<Longrightarrow> noDuplicatePositions (storeContent s)"
  by (simp add: appInv_def validSnapshot_def noDuplicatePositions_def storeContent_def
        deref_def comp_def)

subsection \<open>Repeated undo\<close>

lemma exec_undo_step:
  assumes "0 < historyStep s" "historyStep s < int (length (history s))"
  shows "exec undo s = s\<lparr>voxels := history s ! nat (historyStep s - 1),
                          historyStep := historyStep s - 1\<rparr>"
  using assms by (simp add: exec_def undo_def nth_js_def Let_def)

lemma exec_undo_bottom: "historyStep s \<le> 0 \<Longrightarrow> exec undo s = s"
  by (simp add: exec_def undo_def)

lemma undoTimes_bottom: "historyStep s \<le> 0 \<Longrightarrow> undoTimes k s = s"
  by (induction k) (simp_all add: exec_undo_bottom)

lemma undoTimes_history [simp]: "history (undoTimes k s) = history s"
  by (induction k arbitrary: s) simp_all

lemma undoTimes_cursor:
  assumes "0 \<le> historyStep s" "historyStep s < int (length (history s))"
  shows "historyStep (undoTimes k s) = max 0 (historyStep s - int k)"
  using assms
proof (induction k arbitrary: s)
  case 0
  then show ?case by simp
next
  case (Suc k)
  show ?case
  proof (cases "0 < historyStep s")
    case True
    let ?s1 = "s\<lparr>voxels := history s ! nat (historyStep s - 1), historyStep := historyStep s - 1\<rparr>"
    have e: "exec undo s = ?s1" using True Suc.prems(2) by (rule exec_undo_step)
    have "historyStep (undoTimes k ?s1) = max 0 (historyStep ?s1 - int k)"
      using True Suc.prems by (intro Suc.IH) simp_all
    then show ?thesis by (simp add: e)
  next
    case False
    then have "undoTimes (Suc k) s = s" by (intro undoTimes_bottom) simp
    then show ?thesis using False Suc.prems by simp
  qed
qed

lemma undoTimes_voxels:
  assumes "historyStep s < int (length (history s))" "1 \<le> k" "int k \<le> historyStep s"
  shows "voxels (undoTimes k s) = history s ! nat (historyStep s - int k)"
  using assms
proof (induction k arbitrary: s)
  case 0
  then show ?case by simp
next
  case (Suc k)
  let ?s1 = "s\<lparr>voxels := history s ! nat (historyStep s - 1), historyStep := historyStep s - 1\<rparr>"
  have pos: "0 < historyStep s" using Suc.prems by simp
  have e: "exec undo s = ?s1" using pos Suc.prems(1) by (rule exec_undo_step)
  show ?case
  proof (cases "k = 0")
    case True
    then show ?thesis by (simp add: e)
  next
    case False
    have "voxels (undoTimes k ?s1) = history ?s1 ! nat (historyStep ?s1 - int k)"
      using False Suc.prems by (intro Suc.IH) simp_all
    then show ?thesis by (simp add: e algebra_simps)
  qed
qed

lemma undoTimes_add: "undoTimes (a + b) s = undoTimes b (undoTimes a s)"
  by (induction a arbitrary: s) simp_all

lemma undoTimes_saturates:
  assumes "0 \<le> historyStep s" "historyStep s < int (length (history s))"
    and "historyStep s \<le> int n" "n \<le> k"
  shows "undoTimes k s = undoTimes n s"
proof -
  have "historyStep (undoTimes n s) = 0"
    using undoTimes_cursor[OF assms(1,2), of n] assms(3) by simp
  then have "undoTimes (k - n) (undoTimes n s) = undoTimes n s"
    by (intro undoTimes_bottom) simp
  then show ?thesis
    using undoTimes_add[of n "k - n" s] assms(4) by simp
qed

lemma recordHistory_full:
  assumes "length (history s) = 20" "historyStep s = 19"
  shows "history (recordHistory v s) = tl (history s) @ [v]"
    and "historyStep (recordHistory v s) = 19"
proof -
  have sl: "slice0 (history s) 20 = history s"
    using assms(1) by (simp add: slice0_def)
  show h: "history (recordHistory v s) = tl (history s) @ [v]"
    using assms by (simp add: recordHistory_history sl)
  show "historyStep (recordHistory v s) = 19"
    using assms by (simp add: recordHistory_step h)
qed

text \<open>Recording on a full history whose cursor is on the last entry.\<close>

lemma record_on_full_history:
  assumes len: "length (history s) = 20" and cur: "historyStep s = 19"
  shows "history (recordHistory v s) = tl (history s) @ [v] \<and>
      length (history (recordHistory v s)) = 20 \<and>
      historyStep (recordHistory v s) = 19 \<and>
      (\<forall>i<19. history (recordHistory v s) ! i = history s ! Suc i) \<and>
      (\<forall>k. historyStep (undoTimes k (recordHistory v s)) = max 0 (19 - int k)) \<and>
      (\<forall>k. 1 \<le> k \<and> k \<le> 19 \<longrightarrow>
             voxels (undoTimes k (recordHistory v s)) = history s ! (20 - k)) \<and>
      (\<forall>k\<ge>19. undoTimes k (recordHistory v s) = undoTimes 19 (recordHistory v s))"
proof -
  let ?s' = "recordHistory v s"
  have h: "history ?s' = tl (history s) @ [v]" and st: "historyStep ?s' = 19"
    using recordHistory_full[OF len cur] by simp_all
  have l: "length (history ?s') = 20" using len by (simp add: h)
  have shift: "history ?s' ! i = history s ! Suc i" if "i < 19" for i
    using that len by (simp add: h nth_append nth_tl)
  have lo: "0 \<le> historyStep ?s'" and hi: "historyStep ?s' < int (length (history ?s'))"
    by (simp_all add: st l)
  have curs: "historyStep (undoTimes k ?s') = max 0 (19 - int k)" for k
    using undoTimes_cursor[OF lo hi, of k] by (simp add: st)
  have vox: "voxels (undoTimes k ?s') = history s ! (20 - k)" if "1 \<le> k" "k \<le> 19" for k
  proof -
    have "voxels (undoTimes k ?s') = history ?s' ! nat (historyStep ?s' - int k)"
      using that by (intro undoTimes_voxels hi) (simp_all add: st)
    also have "nat (historyStep ?s' - int k) = 19 - k"
      using that by (simp add: st)
    also have "history ?s' ! (19 - k) = history s ! Suc (19 - k)"
      using that by (intro shift) simp
    also have "Suc (19 - k) = 20 - k" using that by simp
    finally show ?thesis .
  qed
  have sat: "undoTimes k ?s' = undoTimes 19 ?s'" if "19 \<le> k" for k
    using that by (intro undoTimes_saturates lo hi) (simp_all add: st)
  show ?thesis
  proof (intro conjI allI impI)
    show "history ?s' = tl (history s) @ [v]" by (rule h)
    show "length (history ?s') = 20" by (rule l)
    show "historyStep ?s' = 19" by (rule st)
    show "history ?s' ! i = history s ! Suc i" if "i < 19" for i
      using that by (rule shift)
    show "historyStep (undoTimes k ?s') = max 0 (19 - int k)" for k
      by (rule curs)
    show "voxels (undoTimes k ?s') = history s ! (20 - k)" if "1 \<le> k \<and> k \<le> 19" for k
      using that by (intro vox) simp_all
    show "undoTimes k ?s' = undoTimes 19 ?s'" if "19 \<le> k" for k
      using that by (rule sat)
  qed
qed

subsection \<open>Undo after one recorded edit\<close>

lemma storeContent_undo_record:
  assumes lo: "0 \<le> historyStep s1" and hi: "historyStep s1 < int (length (history s1))"
  shows "storeContent (exec undo (recordHistory v s1)) =
           deref (objects s1) (history s1 ! nat (historyStep s1))"
  by (simp add: exec_def undo_after_record[OF lo hi] storeContent_def)

lemma undo_restores_add:
  assumes inv: "appInv s" and cur: "0 \<le> historyStep s" and free: "\<not> existsAt p s"
  shows "storeContent (exec undo (exec (addVoxel p col) s)) = storeContent s"
proof -
  let ?v = "\<lparr>position = p, color = orCurrent col (currentColor s)\<rparr>"
  let ?s1 = "s\<lparr>objects := objects s @ [?v], voxels := voxels s @ [length (objects s)]\<rparr>"
  have hi: "historyStep ?s1 < int (length (history ?s1))"
    using inv by (simp add: appInv_def)
  have at: "history s ! nat (historyStep s) = voxels s"
    using inv cur by (simp add: appInv_def)
  have valid: "validRefs (objects s) (voxels s)"
    using inv by (simp add: appInv_def validSnapshot_def)
  have "storeContent (exec undo (recordHistory (voxels ?s1) ?s1)) =
      deref (objects ?s1) (history ?s1 ! nat (historyStep ?s1))"
    using cur hi by (intro storeContent_undo_record) simp_all
  also have "\<dots> = deref (objects s @ [?v]) (voxels s)"
    by (simp add: at)
  also have "\<dots> = storeContent s"
    using valid by (simp add: deref_append_objects storeContent_def)
  finally show ?thesis
    using free by (simp add: exec_def[of "addVoxel p col"] addVoxel_free)
qed

lemma undo_restores_remove:
  assumes inv: "appInv s" and cur: "0 \<le> historyStep s"
  shows "storeContent (exec undo (exec (removeVoxel i) s)) = storeContent s"
proof -
  let ?s1 = "s\<lparr>voxels := filterNotIndex i 0 (voxels s)\<rparr>"
  have hi: "historyStep ?s1 < int (length (history ?s1))"
    using inv by (simp add: appInv_def)
  have at: "history s ! nat (historyStep s) = voxels s"
    using inv cur by (simp add: appInv_def)
  have "storeContent (exec undo (recordHistory (voxels ?s1) ?s1)) =
      deref (objects ?s1) (history ?s1 ! nat (historyStep ?s1))"
    using cur hi by (intro storeContent_undo_record) simp_all
  also have "\<dots> = storeContent s"
    by (simp add: at storeContent_def)
  finally show ?thesis
    by (simp add: exec_def[of "removeVoxel i"] removeVoxel_def Let_def)
qed

lemma undo_restores_clear:
  assumes inv: "appInv s" and cur: "0 \<le> historyStep s"
  shows "storeContent (exec undo (exec (handleClear True) s)) = storeContent s"
proof -
  let ?s1 = "s\<lparr>voxels := []\<rparr>"
  have hi: "historyStep ?s1 < int (length (history ?s1))"
    using inv by (simp add: appInv_def)
  have at: "history s ! nat (historyStep s) = voxels s"
    using inv cur by (simp add: appInv_def)
  have "storeContent (exec undo (recordHistory [] ?s1)) =
      deref (objects ?s1) (history ?s1 ! nat (historyStep ?s1))"
    using cur hi by (intro storeContent_undo_record) simp_all
  also have "\<dots> = storeContent s"
    by (simp add: at storeContent_def)
  finally show ?thesis
    by (simp add: exec_def[of "handleClear True"] handleClear_def)
qed

text \<open>
  A recolouring is different. The undo goes back to the same references, but they are read
  through the object store in which the colour has been overwritten: the content after
  the undo is the recoloured one.
\<close>

lemma undo_after_recolor_keeps_new_color:
  assumes inv: "appInv s" and cur: "0 \<le> historyStep s"
    and inside: "nth_js (voxels s) i = Some r"
  shows "storeContent (exec undo (exec (updateVoxelColor i) s)) =
           storeContent (exec (updateVoxelColor i) s)"
proof -
  let ?s1 = "s\<lparr>objects := (objects s)[r := (objects s ! r)\<lparr>color := currentColor s\<rparr>],
               voxels := voxels s\<rparr>"
  have e: "exec (updateVoxelColor i) s = recordHistory (voxels s) ?s1"
    using inside by (simp add: exec_def updateVoxelColor_def)
  have hi: "historyStep ?s1 < int (length (history ?s1))"
    using inv by (simp add: appInv_def)
  have at: "history s ! nat (historyStep s) = voxels s"
    using inv cur by (simp add: appInv_def)
  have "storeContent (exec undo (recordHistory (voxels s) ?s1)) =
      deref (objects ?s1) (history ?s1 ! nat (historyStep ?s1))"
    using cur hi by (intro storeContent_undo_record) simp_all
  also have "\<dots> = storeContent (recordHistory (voxels s) ?s1)"
    by (simp add: at storeContent_def)
  finally show ?thesis by (simp add: e)
qed

lemma exampleEvents_state:
  "runEvents exampleEvents (initialApp ''#00ff00'') =
     \<lparr>objects = [\<lparr>position = (0, 0, 0), color = ''#00ff00''\<rparr>,
                 \<lparr>position = (1, 0, 0), color = ''#00ff00''\<rparr>,
                 \<lparr>position = (0, 0, 0), color = ''#0000ff''\<rparr>],
      voxels = [1, 2],
      history = [[0], [0, 1], [0, 1], [1], [1, 2]], historyStep = 4,
      currentColor = ''#00ff00'', currentTool = PENCIL\<rparr>"
  by (simp add: exampleEvents_def initialApp_def exec_def addVoxel_def existsAt_def Let_def
        orCurrent_def updateVoxelColor_def nth_js_def removeVoxel_def
        recordHistory_def slice0_def)

subsection \<open>Undo after several recorded edits\<close>

lemma live_recordHistory: "live (recordHistory v s) = history (recordHistory v s)"
  by (simp add: live_def slice0_recorded)

lemma recordHistory_keeps_tail:
  assumes "live s = zs @ B" and "length B \<le> 19"
  shows "\<exists>ys. history (recordHistory v s) = ys @ B @ [v]"
proof (cases "20 \<le> length (live s)")
  case True
  then have "zs \<noteq> []" using assms by auto
  then have "tl (live s) = tl zs @ B" using assms(1) by simp
  then have "history (recordHistory v s) = tl zs @ B @ [v]"
    using True by (simp add: recordHistory_history flip: live_def)
  then show ?thesis by blast
next
  case False
  then have "history (recordHistory v s) = zs @ B @ [v]"
    using assms(1) by (simp add: recordHistory_history flip: live_def)
  then show ?thesis by blast
qed

lemma recordsEdit_exec:
  assumes "recordsEdit e s"
  shows "\<exists>s1 X. exec (handler e) s = recordHistory (voxels s1) s1 \<and>
           history s1 = history s \<and> historyStep s1 = historyStep s \<and>
           objects s1 = objects s @ X"
proof (cases e)
  case (AddVoxel p c)
  let ?s1 = "s\<lparr>objects := objects s @ [\<lparr>position = p, color = orCurrent c (currentColor s)\<rparr>],
               voxels := voxels s @ [length (objects s)]\<rparr>"
  have "exec (handler e) s = recordHistory (voxels ?s1) ?s1"
    using assms AddVoxel by (simp add: exec_handler exec_def addVoxel_free)
  moreover have "history ?s1 = history s" "historyStep ?s1 = historyStep s"
    "objects ?s1 = objects s @ [\<lparr>position = p, color = orCurrent c (currentColor s)\<rparr>]"
    by simp_all
  ultimately show ?thesis by blast
next
  case (GridClick p)
  let ?s1 = "s\<lparr>objects := objects s @ [\<lparr>position = p, color = orCurrent None (currentColor s)\<rparr>],
               voxels := voxels s @ [length (objects s)]\<rparr>"
  have "exec (handler e) s = recordHistory (voxels ?s1) ?s1"
    using assms GridClick by (simp add: exec_handler exec_def addVoxel_free)
  moreover have "history ?s1 = history s" "historyStep ?s1 = historyStep s"
    "objects ?s1 = objects s @ [\<lparr>position = p, color = orCurrent None (currentColor s)\<rparr>]"
    by simp_all
  ultimately show ?thesis by blast
next
  case (RemoveVoxel i)
  let ?s1 = "s\<lparr>voxels := filterNotIndex i 0 (voxels s)\<rparr>"
  have "exec (handler e) s = recordHistory (voxels ?s1) ?s1"
    using RemoveVoxel by (simp add: exec_handler exec_def removeVoxel_def Let_def)
  moreover have "history ?s1 = history s" "historyStep ?s1 = historyStep s"
    "objects ?s1 = objects s @ []"
    by simp_all
  ultimately show ?thesis by blast
next
  case (Clear b)
  let ?s1 = "s\<lparr>voxels := []\<rparr>"
  have "exec (handler e) s = recordHistory (voxels ?s1) ?s1"
    using assms Clear by (simp add: exec_handler exec_def handleClear_def)
  moreover have "history ?s1 = history s" "historyStep ?s1 = historyStep s"
    "objects ?s1 = objects s @ []"
    by simp_all
  ultimately show ?thesis by blast
qed (use assms in simp_all)

lemma recordsEdit_step:
  assumes rec: "recordsEdit e s" and tail: "live s = zs @ B" and len: "length B \<le> 19"
  shows "\<exists>ys X. live (exec (handler e) s) = ys @ B @ [voxels (exec (handler e) s)] \<and>
           live (exec (handler e) s) = history (exec (handler e) s) \<and>
           historyStep (exec (handler e) s) = int (length (history (exec (handler e) s))) - 1 \<and>
           objects (exec (handler e) s) = objects s @ X"
proof -
  obtain s1 X where e: "exec (handler e) s = recordHistory (voxels s1) s1"
    and h: "history s1 = history s" and st: "historyStep s1 = historyStep s"
    and o: "objects s1 = objects s @ X"
    using recordsEdit_exec[OF rec] by blast
  have "live s1 = zs @ B" using tail by (simp add: live_def h st)
  then obtain ys where "history (recordHistory (voxels s1) s1) = ys @ B @ [voxels s1]"
    using recordHistory_keeps_tail[OF _ len] by blast
  then show ?thesis
    by (simp add: e live_recordHistory recordHistory_step o)
qed

lemma allRecord_tail:
  assumes "allRecord es s" and "live s = zs @ B" and "length B + length es \<le> 20"
  shows "\<exists>ys C X. live (runEvents es s) = ys @ B @ C \<and> length C = length es \<and>
           objects (runEvents es s) = objects s @ X \<and>
           (es \<noteq> [] \<longrightarrow> live (runEvents es s) = history (runEvents es s) \<and>
              historyStep (runEvents es s) = int (length (history (runEvents es s))) - 1)"
  using assms
proof (induction es arbitrary: s zs B)
  case Nil
  then show ?case by simp
next
  case (Cons e es)
  let ?s1 = "exec (handler e) s"
  have rec: "recordsEdit e s" and rest: "allRecord es ?s1"
    using Cons.prems(1) by simp_all
  have len: "length B \<le> 19" using Cons.prems(3) by simp
  obtain ys X where l1: "live ?s1 = ys @ B @ [voxels ?s1]"
    and lh: "live ?s1 = history ?s1"
    and st: "historyStep ?s1 = int (length (history ?s1)) - 1"
    and o1: "objects ?s1 = objects s @ X"
    using recordsEdit_step[OF rec Cons.prems(2) len] by blast
  have l1': "live ?s1 = ys @ (B @ [voxels ?s1])" using l1 by simp
  have len': "length (B @ [voxels ?s1]) + length es \<le> 20"
    using Cons.prems(3) by simp
  obtain ys' C X' where t: "live (runEvents es ?s1) = ys' @ (B @ [voxels ?s1]) @ C"
    and lc: "length C = length es"
    and o2: "objects (runEvents es ?s1) = objects ?s1 @ X'"
    and last: "es \<noteq> [] \<longrightarrow> live (runEvents es ?s1) = history (runEvents es ?s1) \<and>
              historyStep (runEvents es ?s1) = int (length (history (runEvents es ?s1))) - 1"
    using Cons.IH[OF rest l1' len'] by blast
  have a: "live (runEvents (e # es) s) = ys' @ B @ (voxels ?s1 # C)"
    using t by simp
  have b: "length (voxels ?s1 # C) = length (e # es)" using lc by simp
  have c: "objects (runEvents (e # es) s) = objects s @ (X @ X')"
    using o1 o2 by simp
  have d: "live (runEvents (e # es) s) = history (runEvents (e # es) s) \<and>
      historyStep (runEvents (e # es) s) = int (length (history (runEvents (e # es) s))) - 1"
  proof (cases "es = []")
    case True
    then show ?thesis using lh st by simp
  next
    case False
    then show ?thesis using last by simp
  qed
  show ?case using a b c d by blast
qed

lemma live_at_cursor:
  assumes "0 \<le> historyStep s" "historyStep s < int (length (history s))"
  shows "\<exists>zs. live s = zs @ [history s ! nat (historyStep s)]"
proof -
  let ?k = "nat (historyStep s)"
  have k: "?k < length (history s)" using assms by simp
  have "live s = take (Suc ?k) (history s)"
    unfolding live_def using assms by (rule slice0_cursor)
  also have "\<dots> = take ?k (history s) @ [history s ! ?k]"
    using k by (rule take_Suc_conv_app_nth)
  finally show ?thesis by blast
qed

lemma undo_many_restores:
  assumes inv: "appInv s" and cur: "0 \<le> historyStep s"
    and rec: "allRecord es s" and len: "length es \<le> 19"
  shows "storeContent (undoTimes (length es) (runEvents es s)) = storeContent s"
proof (cases "es = []")
  case True
  then show ?thesis by simp
next
  case False
  let ?t = "runEvents es s"
  let ?k = "length es"
  have hi: "historyStep s < int (length (history s))" using inv by (simp add: appInv_def)
  have at: "history s ! nat (historyStep s) = voxels s" using inv cur by (simp add: appInv_def)
  obtain zs where l0: "live s = zs @ [voxels s]"
    using live_at_cursor[OF cur hi] at by auto
  have "length [voxels s] + length es \<le> 20" using len by simp
  from allRecord_tail[OF rec l0 this] False
  obtain ys C X where lt: "live ?t = ys @ [voxels s] @ C" and lc: "length C = ?k"
    and o: "objects ?t = objects s @ X"
    and lh: "live ?t = history ?t"
    and st: "historyStep ?t = int (length (history ?t)) - 1"
    by blast
  have h: "history ?t = ys @ [voxels s] @ C" using lt lh by simp
  have st': "historyStep ?t = int (length ys) + int ?k"
    using st lc by (simp add: h)
  have k1: "1 \<le> ?k" using False by (cases es) simp_all
  have "voxels (undoTimes ?k ?t) = history ?t ! nat (historyStep ?t - int ?k)"
    using k1 by (intro undoTimes_voxels) (simp_all add: st' h lc)
  also have "nat (historyStep ?t - int ?k) = length ys" by (simp add: st')
  also have "history ?t ! length ys = voxels s" by (simp add: h)
  finally have v: "voxels (undoTimes ?k ?t) = voxels s" .
  have ob: "objects (undoTimes k t) = objects t" for k t
    by (induction k arbitrary: t) simp_all
  have valid: "validRefs (objects s) (voxels s)"
    using inv by (simp add: appInv_def validSnapshot_def)
  show ?thesis
    using valid by (simp add: storeContent_def v ob o deref_append_objects)
qed

subsection \<open>Number addition\<close>

lemma roundNumber_safe:
  assumes "\<bar>x\<bar> \<le> 9007199254740992"
  shows "roundNumber x = x"
proof -
  have "nat \<bar>x\<bar> \<le> 9007199254740992"
    using assms by linarith
  then show ?thesis
    unfolding roundNumber_def Let_def by (simp only: if_True)
qed

lemma addNumber_safe: "\<bar>a\<bar> < 9007199254740992 \<Longrightarrow> \<bar>b\<bar> \<le> 1 \<Longrightarrow> addNumber a b = a + b"
  unfolding addNumber_def by (rule roundNumber_safe) linarith

lemma addNormal_safe:
  assumes "safeCoordinates p" and "axisNormal n"
  shows "addNormal p n = (fst p + fst n, fst (snd p) + fst (snd n), snd (snd p) + snd (snd n))"
proof -
  have "\<bar>fst n\<bar> \<le> 1" "\<bar>fst (snd n)\<bar> \<le> 1" "\<bar>snd (snd n)\<bar> \<le> 1"
    using assms(2) by (auto simp: axisNormal_def)
  then show ?thesis
    using assms(1) by (simp add: addNormal_def safeCoordinates_def addNumber_safe)
qed

text \<open>The sum is absorbed at the edge of the exact range.\<close>

lemma addNormal_absorbed:
  "addNormal (9007199254740992, 0, 0) (1, 0, 0) = (9007199254740992, 0, 0)"
  by (simp add: addNormal_def addNumber_def roundNumber_def bitLength.simps Let_def)

subsection \<open>A click with the clone tool\<close>

lemma duplicate_click_content:
  assumes tool: "currentTool s = DUPLICATE"
    and src: "nth_js (voxels s) index = Some r"
    and valid: "validRefs (objects s) (voxels s)"
    and free: "\<not> existsAt (addNormal (position (objects s ! r)) n) s"
  shows "storeContent (exec (handleVoxelClick (Some n) index) s) =
           storeContent s @
             [\<lparr>position = addNormal (position (objects s ! r)) n,
               color = orCurrent (Some (color (objects s ! r))) (currentColor s)\<rparr>]"
proof -
  have "handleVoxelClick (Some n) index s =
      addVoxel (addNormal (position (objects s ! r)) n) (Some (color (objects s ! r))) s"
    using tool src by (rule handleVoxelClick_duplicate)
  then have "exec (handleVoxelClick (Some n) index) s =
      exec (addVoxel (addNormal (position (objects s ! r)) n) (Some (color (objects s ! r)))) s"
    by (simp add: exec_def)
  then show ?thesis
    using storeContent_addVoxel[OF free valid] by simp
qed

lemma cloneReadyEvents_state:
  "runEvents cloneReadyEvents (initialApp ''#00ff00'') =
     \<lparr>objects = [\<lparr>position = (0, 0, 0), color = ''#ff0000''\<rparr>], voxels = [0],
      history = [[0]], historyStep = 0,
      currentColor = ''#00ff00'', currentTool = DUPLICATE\<rparr>"
  by (simp add: cloneReadyEvents_def initialApp_def exec_def addVoxel_def existsAt_def Let_def
        orCurrent_def recordHistory_def slice0_def)

lemma neighbourEvents_state:
  "runEvents neighbourEvents (initialApp ''#00ff00'') =
     \<lparr>objects = [\<lparr>position = (0, 0, 0), color = ''#ff0000''\<rparr>,
                 \<lparr>position = (1, 0, 0), color = ''#0000ff''\<rparr>],
      voxels = [0, 1],
      history = [[0], [0, 1]], historyStep = 1,
      currentColor = ''#00ff00'', currentTool = DUPLICATE\<rparr>"
  by (simp add: neighbourEvents_def initialApp_def exec_def addVoxel_def existsAt_def Let_def
        orCurrent_def recordHistory_def slice0_def)

subsection \<open>The cursor after a record\<close>

text \<open>The cursor invariant holds in every state reached from the initial one.\<close>

lemma cursor_invariant_reachable:
  "- 1 \<le> historyStep (runEvents evs (initialApp c)) \<and>
   historyStep (runEvents evs (initialApp c)) < int (length (history (runEvents evs (initialApp c)))) \<and>
   length (history (runEvents evs (initialApp c))) \<le> 20"
  using appInv_runEvents[OF appInv_initialApp, of evs c] by (simp add: appInv_def)

lemma record_cursor_after:
  assumes lo: "- 1 \<le> historyStep s" and hi: "historyStep s < int (length (history s))"
    and cap: "length (history s) \<le> 20"
  shows "historyStep (recordHistory v s) = min 19 (historyStep s + 1)"
    and "length (history (recordHistory v s)) = nat (min 19 (historyStep s + 1)) + 1"
proof -
  define pre where "pre = slice0 (history s) (historyStep s + 1)"
  have pre_eq: "pre = take (nat (historyStep s + 1)) (history s)"
    unfolding pre_def using lo by (simp add: slice0_take)
  have len: "int (length pre) = historyStep s + 1"
    using lo hi by (simp add: pre_eq)
  have hist: "history (recordHistory v s) =
                (if 20 \<le> length pre then tl pre @ [v] else pre @ [v])"
    unfolding pre_def by (rule recordHistory_history)
  have l: "int (length (history (recordHistory v s))) = min 19 (historyStep s + 1) + 1"
    using len hi cap by (auto simp: hist)
  show "historyStep (recordHistory v s) = min 19 (historyStep s + 1)"
    using l by (simp add: recordHistory_step)
  show "length (history (recordHistory v s)) = nat (min 19 (historyStep s + 1)) + 1"
    using l lo by linarith
qed

lemma twentyAdds_state:
  "runEvents twentyAdds (initialApp ''#00ff00'') =
     \<lparr>objects = map (\<lambda>i. \<lparr>position = (int i, 0, 0), color = ''#00ff00''\<rparr>) [0..<20],
      voxels = [0..<20],
      history = map (\<lambda>n. [0..<n]) [1..<21], historyStep = 19,
      currentColor = ''#00ff00'', currentTool = PENCIL\<rparr>"
  by (simp add: twentyAdds_def initialApp_def exec_def addVoxel_def existsAt_def Let_def
        orCurrent_def recordHistory_def slice0_def upt_conv_Cons)

subsection \<open>The staged preview\<close>



lemma updatePreviewColor_ref [simp]:
  "originalPreviewRef (updatePreviewColor lib hex p) = originalPreviewRef p"
  by (simp add: updatePreviewColor_def Let_def split: option.splits)



section \<open>History: recording after an undo\<close>

text \<open>
  Claim C7. Recording a snapshot after an undo discards the redoable snapshots: after
  \<open>record a; record b; undo; record c\<close>, whatever the state before, the cursor is on the
  last snapshot, so \<open>redo\<close> returns the state unchanged (cursor and store); the undo in
  the middle had put the store back to \<open>a\<close>; and where no eviction interferes (at most 18
  snapshots up to the cursor at the start) the history ends in \<open>a, c\<close>: the snapshot
  \<open>b\<close> is gone.
\<close>

theorem record_after_undo_discards_redo:
  "redo (recordUndoRecord a b c s) = Inr (recordUndoRecord a b c s) \<and>
   historyStep (recordUndoRecord a b c s) = int (length (history (recordUndoRecord a b c s))) - 1 \<and>
   voxels (exec undo (recordHistory b (recordHistory a s))) = a \<and>
   (length (slice0 (history s) (historyStep s + 1)) \<le> 18 \<longrightarrow>
      history (recordHistory b (recordHistory a s)) =
        slice0 (history s) (historyStep s + 1) @ [a, b] \<and>
      history (recordUndoRecord a b c s) = slice0 (history s) (historyStep s + 1) @ [a, c])"
proof -
  have "redo (recordUndoRecord a b c s) = Inr (recordUndoRecord a b c s)"
    unfolding recordUndoRecord_def by (rule redo_recordHistory)
  moreover have "historyStep (recordUndoRecord a b c s) =
      int (length (history (recordUndoRecord a b c s))) - 1"
    unfolding recordUndoRecord_def by (rule recordHistory_step)
  moreover have "voxels (exec undo (recordHistory b (recordHistory a s))) = a"
    by (simp add: exec_undo_two_records)
  ultimately show ?thesis
    using short_history_two_records by blast
qed

theorem record_after_undo_discards_redo_witness:
  "redo (recordUndoRecord [0] [0, 1] [0, 2] (initialApp ''#ffffff'')) =
     Inr (recordUndoRecord [0] [0, 1] [0, 2] (initialApp ''#ffffff'')) \<and>
   history (recordHistory [0, 1] (recordHistory [0] (initialApp ''#ffffff''))) = [[0], [0, 1]] \<and>
   history (recordUndoRecord [0] [0, 1] [0, 2] (initialApp ''#ffffff'')) = [[0], [0, 2]]"
  using record_after_undo_discards_redo[of "[0]" "[0, 1]" "[0, 2]" "initialApp ''#ffffff''"]
  by (simp add: initialApp_def slice0_def)

section \<open>Adding to an occupied cell\<close>

text \<open>
  Claim C3. If the position is already occupied, \<open>addVoxel\<close> returns normally with the
  state unchanged (store, history, cursor); and a second add at the position of a first
  one never changes anything, whatever the two colours are and whether or not the first
  add found the cell free.
\<close>

theorem addVoxel_occupied_noop:
  "(existsAt p s \<longrightarrow> addVoxel p c s = Inr s) \<and>
   addVoxel p c2 (exec (addVoxel p c) s) = Inr (exec (addVoxel p c) s) \<and>
   exec (addVoxel p c2) (exec (addVoxel p c) s) = exec (addVoxel p c) s"
  using existsAt_after_add[of p c s]
  by (simp add: addVoxel_occupied exec_def)

theorem addVoxel_occupied_noop_witness:
  "existsAt (0, 0, 0) exampleApp \<and>
   addVoxel (0, 0, 0) (Some ''#0000ff'') exampleApp = Inr exampleApp"
  using addVoxel_occupied_noop[of "(0, 0, 0)" exampleApp "Some ''#0000ff''"]
  by (simp add: exampleApp_def existsAt_def)

section \<open>Adding to a free cell\<close>

text \<open>
  Claim C4, as amended. If the position is not occupied, \<open>addVoxel\<close> returns normally,
  the store content becomes the old content followed by exactly one voxel at that
  position, and exactly one snapshot (the new store) is pushed on the history after the
  entries up to the cursor, with the cursor on it. The colour of the new voxel is
  \<open>overrideColor || currentColor\<close>: the current colour when the override is absent or
  the empty string, the override otherwise. The witness is the scenario of the
  specification: a red voxel at the origin, green as current colour, an add at (1,0,0)
  without a colour.
\<close>

theorem addVoxel_appends:
  assumes "\<not> existsAt p s" and "validRefs (objects s) (voxels s)"
  shows "\<not> isl (addVoxel p c s) \<and>
         storeContent (exec (addVoxel p c) s) =
           storeContent s @
             [\<lparr>position = p,
               color = (case c of None \<Rightarrow> currentColor s
                        | Some x \<Rightarrow> if x = [] then currentColor s else x)\<rparr>] \<and>
         history (exec (addVoxel p c) s) =
           (if 20 \<le> length (slice0 (history s) (historyStep s + 1))
            then tl (slice0 (history s) (historyStep s + 1))
            else slice0 (history s) (historyStep s + 1)) @ [voxels (exec (addVoxel p c) s)] \<and>
         historyStep (exec (addVoxel p c) s) = int (length (history (exec (addVoxel p c) s))) - 1"
proof -
  have "storeContent (exec (addVoxel p c) s) =
           storeContent s @
             [\<lparr>position = p,
               color = (case c of None \<Rightarrow> currentColor s
                        | Some x \<Rightarrow> if x = [] then currentColor s else x)\<rparr>]"
    using storeContent_addVoxel[OF assms, of c] by (simp add: orCurrent_def)
  moreover have "\<not> isl (addVoxel p c s)"
    using assms(1) by (simp add: addVoxel_free)
  moreover have "history (exec (addVoxel p c) s) =
           (if 20 \<le> length (slice0 (history s) (historyStep s + 1))
            then tl (slice0 (history s) (historyStep s + 1))
            else slice0 (history s) (historyStep s + 1)) @ [voxels (exec (addVoxel p c) s)]"
    using assms(1) by (simp add: exec_def addVoxel_free recordHistory_history)
  moreover have "historyStep (exec (addVoxel p c) s) =
      int (length (history (exec (addVoxel p c) s))) - 1"
    using assms(1) by (simp add: exec_def addVoxel_free recordHistory_step)
  ultimately show ?thesis by blast
qed

theorem addVoxel_appends_witness:
  "\<not> existsAt (1, 0, 0) exampleApp \<and> validRefs (objects exampleApp) (voxels exampleApp) \<and>
   storeContent exampleApp = [\<lparr>position = (0, 0, 0), color = ''#ff0000''\<rparr>] \<and>
   currentColor exampleApp = ''#00ff00'' \<and>
   storeContent (exec (addVoxel (1, 0, 0) None) exampleApp) =
     [\<lparr>position = (0, 0, 0), color = ''#ff0000''\<rparr>, \<lparr>position = (1, 0, 0), color = ''#00ff00''\<rparr>] \<and>
   history (exec (addVoxel (1, 0, 0) None) exampleApp) =
     history exampleApp @ [voxels (exec (addVoxel (1, 0, 0) None) exampleApp)]"
proof -
  have free: "\<not> existsAt (1, 0, 0) exampleApp"
    by (simp add: exampleApp_def existsAt_def)
  have valid: "validRefs (objects exampleApp) (voxels exampleApp)"
    by (simp add: exampleApp_def validRefs_def)
  have content: "storeContent exampleApp = [\<lparr>position = (0, 0, 0), color = ''#ff0000''\<rparr>]"
    by (simp add: exampleApp_def storeContent_def deref_def)
  have sl: "slice0 (history exampleApp) (historyStep exampleApp + 1) = history exampleApp"
    by (simp add: exampleApp_def slice0_def)
  have len: "length (history exampleApp) = 1" by (simp add: exampleApp_def)
  have cc: "currentColor exampleApp = ''#00ff00''" by (simp add: exampleApp_def)
  show ?thesis
    using addVoxel_appends[OF free valid, of None] free valid content
    by (simp add: sl len cc)
qed

text \<open>
  With the empty string as override the new voxel gets the current colour, not the
  override, so the colour is not \<open>color ?? currentColor\<close>.
\<close>

theorem addVoxel_nullish_counterexample:
  "\<not> existsAt (1, 0, 0) exampleApp \<and>
   storeContent (exec (addVoxel (1, 0, 0) (Some '''')) exampleApp) \<noteq>
     storeContent exampleApp @
       [\<lparr>position = (1, 0, 0),
         color = (case Some '''' of None \<Rightarrow> currentColor exampleApp | Some x \<Rightarrow> x)\<rparr>] \<and>
   storeContent (exec (addVoxel (1, 0, 0) (Some '''')) exampleApp) =
     [\<lparr>position = (0, 0, 0), color = ''#ff0000''\<rparr>, \<lparr>position = (1, 0, 0), color = ''#00ff00''\<rparr>]"
  by (simp add: exampleApp_def existsAt_def exec_def addVoxel_def Let_def storeContent_def
        deref_def orCurrent_def)

section \<open>The clone tool\<close>

text \<open>
  Claim C8, as amended. With the DUPLICATE tool, a click on the voxel at a valid index
  with the normal of a face (a unit axis vector) never fails and calls \<open>addVoxel\<close> at the
  voxel's position plus the normal, the sum taken as the code takes it (exact for
  coordinates below \<open>2^53\<close>), with the source voxel's colour as override. If that cell
  is free and the source colour is a non-empty string, the store content becomes the old
  content followed by a voxel at that cell with the source voxel's own colour, whatever
  the current colour is. If that cell is occupied, nothing is added and nothing changes.
\<close>

theorem duplicate_uses_source_color:
  assumes tool: "currentTool s = DUPLICATE"
    and src: "nth_js (voxels s) index = Some r"
    and valid: "validRefs (objects s) (voxels s)"
    and normal: "axisNormal n"
    and nonempty: "color (objects s ! r) \<noteq> []"
  shows "\<not> isl (handleVoxelClick (Some n) index (s\<lparr>currentColor := cc\<rparr>)) \<and>
         (\<not> existsAt (addNormal (position (objects s ! r)) n) s \<longrightarrow>
            storeContent (exec (handleVoxelClick (Some n) index) (s\<lparr>currentColor := cc\<rparr>)) =
              storeContent s @
                [\<lparr>position = addNormal (position (objects s ! r)) n,
                  color = color (objects s ! r)\<rparr>]) \<and>
         (existsAt (addNormal (position (objects s ! r)) n) s \<longrightarrow>
            exec (handleVoxelClick (Some n) index) (s\<lparr>currentColor := cc\<rparr>) =
              s\<lparr>currentColor := cc\<rparr>) \<and>
         (safeCoordinates (position (objects s ! r)) \<longrightarrow>
            addNormal (position (objects s ! r)) n =
              (fst (position (objects s ! r)) + fst n,
               fst (snd (position (objects s ! r))) + fst (snd n),
               snd (snd (position (objects s ! r))) + snd (snd n)))"
proof -
  let ?s = "s\<lparr>currentColor := cc\<rparr>"
  let ?p = "addNormal (position (objects s ! r)) n"
  have click: "handleVoxelClick (Some n) index ?s = addVoxel ?p (Some (color (objects s ! r))) ?s"
    using handleVoxelClick_duplicate[of ?s index r n] tool src by simp
  have ok: "\<not> isl (handleVoxelClick (Some n) index ?s)"
    by (simp add: click addVoxel_def Let_def)
  have occupied: "exec (handleVoxelClick (Some n) index) ?s = ?s" if "existsAt ?p s"
    using that by (simp add: exec_def click addVoxel_occupied)
  have free: "storeContent (exec (handleVoxelClick (Some n) index) ?s) =
      storeContent s @ [\<lparr>position = ?p, color = color (objects s ! r)\<rparr>]"
    if "\<not> existsAt ?p s"
  proof -
    have "storeContent (exec (handleVoxelClick (Some n) index) ?s) =
        storeContent ?s @
          [\<lparr>position = addNormal (position (objects ?s ! r)) n,
            color = orCurrent (Some (color (objects ?s ! r))) (currentColor ?s)\<rparr>]"
      using that tool src valid by (intro duplicate_click_content) simp_all
    then show ?thesis
      using nonempty by (simp add: orCurrent_def)
  qed
  have exact: "?p = (fst (position (objects s ! r)) + fst n,
               fst (snd (position (objects s ! r))) + fst (snd n),
               snd (snd (position (objects s ! r))) + snd (snd n))"
    if "safeCoordinates (position (objects s ! r))"
    using that normal by (rule addNormal_safe)
  show ?thesis
  proof (intro conjI impI)
    show "\<not> isl (handleVoxelClick (Some n) index ?s)" by (rule ok)
    show "storeContent (exec (handleVoxelClick (Some n) index) ?s) =
      storeContent s @ [\<lparr>position = ?p, color = color (objects s ! r)\<rparr>]"
      if "\<not> existsAt ?p s" using that by (rule free)
    show "exec (handleVoxelClick (Some n) index) ?s = ?s" if "existsAt ?p s"
      using that by (rule occupied)
    show "?p = (fst (position (objects s ! r)) + fst n,
               fst (snd (position (objects s ! r))) + fst (snd n),
               snd (snd (position (objects s ! r))) + snd (snd n))"
      if "safeCoordinates (position (objects s ! r))" using that by (rule exact)
  qed
qed

theorem duplicate_uses_source_color_witness:
  "currentTool (runEvents cloneReadyEvents (initialApp ''#00ff00'')) = DUPLICATE \<and>
   axisNormal (1, 0, 0) \<and>
   storeContent (runEvents cloneReadyEvents (initialApp ''#00ff00'')) =
     [\<lparr>position = (0, 0, 0), color = ''#ff0000''\<rparr>] \<and>
   storeContent (exec (handleVoxelClick (Some (1, 0, 0)) 0)
       ((runEvents cloneReadyEvents (initialApp ''#00ff00''))\<lparr>currentColor := ''#0000ff''\<rparr>)) =
     [\<lparr>position = (0, 0, 0), color = ''#ff0000''\<rparr>, \<lparr>position = (1, 0, 0), color = ''#ff0000''\<rparr>]"
proof -
  let ?s = "runEvents cloneReadyEvents (initialApp ''#00ff00'')"
  have tool: "currentTool ?s = DUPLICATE" by (simp add: cloneReadyEvents_state)
  have src: "nth_js (voxels ?s) 0 = Some 0" by (simp add: cloneReadyEvents_state nth_js_def)
  have valid: "validRefs (objects ?s) (voxels ?s)"
    by (simp add: cloneReadyEvents_state validRefs_def)
  have normal: "axisNormal (1, 0, 0)" by (simp add: axisNormal_def)
  have nonempty: "color (objects ?s ! 0) \<noteq> []" by (simp add: cloneReadyEvents_state)
  have safe: "safeCoordinates (position (objects ?s ! 0))"
    by (simp add: cloneReadyEvents_state safeCoordinates_def)
  have target: "addNormal (position (objects ?s ! 0)) (1, 0, 0) = (1, 0, 0)"
    using addNormal_safe[OF safe normal] by (simp add: cloneReadyEvents_state)
  have free: "\<not> existsAt (1, 0, 0) ?s"
    by (simp add: cloneReadyEvents_state existsAt_def)
  have content: "storeContent ?s = [\<lparr>position = (0, 0, 0), color = ''#ff0000''\<rparr>]"
    by (simp add: cloneReadyEvents_state storeContent_def deref_def)
  have src_color: "color (objects ?s ! 0) = ''#ff0000''" by (simp add: cloneReadyEvents_state)
  note inst = duplicate_uses_source_color[OF tool src valid normal nonempty, of "''#0000ff''"]
  note appended = inst[THEN conjunct2, THEN conjunct1]
  show ?thesis
    using appended free tool normal
    by (simp only: target content src_color simp_thms append.simps)
qed

text \<open>
  Two voxels next to each other: a click on the first one, on the face towards the
  second, adds nothing, since the target cell is occupied and \<open>addVoxel\<close> does nothing
  there.
\<close>

theorem duplicate_occupied_target_counterexample:
  "currentTool (runEvents neighbourEvents (initialApp ''#00ff00'')) = DUPLICATE \<and>
   storeContent (runEvents neighbourEvents (initialApp ''#00ff00'')) =
     [\<lparr>position = (0, 0, 0), color = ''#ff0000''\<rparr>, \<lparr>position = (1, 0, 0), color = ''#0000ff''\<rparr>] \<and>
   handleVoxelClick (Some (1, 0, 0)) 0 (runEvents neighbourEvents (initialApp ''#00ff00'')) =
     Inr (runEvents neighbourEvents (initialApp ''#00ff00'')) \<and>
   storeContent (exec (handleVoxelClick (Some (1, 0, 0)) 0)
       (runEvents neighbourEvents (initialApp ''#00ff00''))) =
     [\<lparr>position = (0, 0, 0), color = ''#ff0000''\<rparr>, \<lparr>position = (1, 0, 0), color = ''#0000ff''\<rparr>]"
  by (simp add: neighbourEvents_state handleVoxelClick_def nth_js_def Let_def addNormal_def
        addNumber_def roundNumber_def addVoxel_def existsAt_def exec_def storeContent_def
        deref_def)

section \<open>Indices outside the store\<close>

text \<open>
  Claim C2, as amended. For an index that is negative or not below the length of the
  store, \<open>removeVoxel\<close> does not fail: it returns normally and the store content is
  unchanged. \<open>updateVoxelColor\<close> fails with a TypeError and the state stays as it was.
\<close>

theorem invalid_index_behaviour:
  assumes "index < 0 \<or> int (length (voxels s)) \<le> index"
  shows "\<not> isl (removeVoxel index s) \<and>
         storeContent (exec (removeVoxel index) s) = storeContent s \<and>
         updateVoxelColor index s = Inl TypeError \<and>
         exec (updateVoxelColor index) s = s"
  using assms
  by (simp add: removeVoxel_outside updateVoxelColor_outside exec_def)

theorem invalid_index_behaviour_witness:
  "(5 < (0::int) \<or> int (length (voxels exampleApp)) \<le> 5) \<and>
   \<not> isl (removeVoxel 5 exampleApp) \<and>
   storeContent (exec (removeVoxel 5) exampleApp) = storeContent exampleApp \<and>
   updateVoxelColor 5 exampleApp = Inl TypeError"
proof -
  have h: "5 < (0::int) \<or> int (length (voxels exampleApp)) \<le> 5"
    by (simp add: exampleApp_def)
  show ?thesis using invalid_index_behaviour[OF h] h by simp
qed

text \<open>Removing at index 5 from a store of one voxel returns a state; nothing is signalled.\<close>

theorem removeVoxel_invalid_index_counterexample:
  "int (length (voxels exampleApp)) \<le> 5 \<and>
   removeVoxel 5 exampleApp = Inr (exampleApp\<lparr>history := [[0], [0]], historyStep := 1\<rparr>)"
  by (simp add: exampleApp_def removeVoxel_def recordHistory_def slice0_def Let_def)

text \<open>
  Claim C10, as amended. For an index outside the store, \<open>removeVoxel\<close> returns normally
  with the voxels and the objects unchanged, and still records: the history becomes the
  entries up to the cursor (the oldest one dropped when there are already 20) followed by
  a snapshot of the unchanged store, the cursor is on that last snapshot, and a \<open>redo\<close>
  does nothing afterwards. In a state whose cursor is \<open>-1\<close> or an index of a history of at
  most 20 entries (every reachable state), the new cursor is the old one plus one, except
  that it stays 19 when it was 19: then the oldest snapshot is evicted instead.
\<close>

theorem removeVoxel_invalid_index_records:
  assumes "index < 0 \<or> int (length (voxels s)) \<le> index"
  shows "removeVoxel index s = Inr (exec (removeVoxel index) s) \<and>
         voxels (exec (removeVoxel index) s) = voxels s \<and>
         objects (exec (removeVoxel index) s) = objects s \<and>
         history (exec (removeVoxel index) s) =
           (if 20 \<le> length (slice0 (history s) (historyStep s + 1))
            then tl (slice0 (history s) (historyStep s + 1))
            else slice0 (history s) (historyStep s + 1)) @ [voxels s] \<and>
         historyStep (exec (removeVoxel index) s) =
           int (length (history (exec (removeVoxel index) s))) - 1 \<and>
         redo (exec (removeVoxel index) s) = Inr (exec (removeVoxel index) s) \<and>
         (- 1 \<le> historyStep s \<and> historyStep s < int (length (history s)) \<and>
          length (history s) \<le> 20 \<longrightarrow>
            historyStep (exec (removeVoxel index) s) = min 19 (historyStep s + 1) \<and>
            length (history (exec (removeVoxel index) s)) =
              nat (min 19 (historyStep s + 1)) + 1)"
proof -
  have ex: "exec (removeVoxel index) s = recordHistory (voxels s) s"
    using assms by (simp add: exec_def removeVoxel_outside)
  have ret: "removeVoxel index s = Inr (recordHistory (voxels s) s)"
    using assms by (rule removeVoxel_outside)
  have hist: "history (recordHistory (voxels s) s) =
           (if 20 \<le> length (slice0 (history s) (historyStep s + 1))
            then tl (slice0 (history s) (historyStep s + 1))
            else slice0 (history s) (historyStep s + 1)) @ [voxels s]"
    by (simp add: recordHistory_history)
  have cursor: "historyStep (recordHistory (voxels s) s) = min 19 (historyStep s + 1) \<and>
      length (history (recordHistory (voxels s) s)) = nat (min 19 (historyStep s + 1)) + 1"
    if "- 1 \<le> historyStep s \<and> historyStep s < int (length (history s)) \<and>
        length (history s) \<le> 20"
    using that record_cursor_after[of s "voxels s"] by blast
  show ?thesis
    unfolding ex
  proof (intro conjI)
    show "removeVoxel index s = Inr (recordHistory (voxels s) s)" by (rule ret)
    show "voxels (recordHistory (voxels s) s) = voxels s" by simp
    show "objects (recordHistory (voxels s) s) = objects s" by simp
    show "history (recordHistory (voxels s) s) =
           (if 20 \<le> length (slice0 (history s) (historyStep s + 1))
            then tl (slice0 (history s) (historyStep s + 1))
            else slice0 (history s) (historyStep s + 1)) @ [voxels s]" by (rule hist)
    show "historyStep (recordHistory (voxels s) s) =
        int (length (history (recordHistory (voxels s) s))) - 1"
      by (rule recordHistory_step)
    show "redo (recordHistory (voxels s) s) = Inr (recordHistory (voxels s) s)"
      by (rule redo_recordHistory)
    show "- 1 \<le> historyStep s \<and> historyStep s < int (length (history s)) \<and>
          length (history s) \<le> 20 \<longrightarrow>
            historyStep (recordHistory (voxels s) s) = min 19 (historyStep s + 1) \<and>
            length (history (recordHistory (voxels s) s)) =
              nat (min 19 (historyStep s + 1)) + 1"
      using cursor by (rule impI)
  qed
qed

theorem removeVoxel_invalid_index_records_witness:
  "(100 < (0::int) \<or> int (length (voxels (runEvents twentyAdds (initialApp ''#00ff00'')))) \<le> 100) \<and>
   historyStep (runEvents twentyAdds (initialApp ''#00ff00'')) = 19 \<and>
   length (history (runEvents twentyAdds (initialApp ''#00ff00''))) = 20 \<and>
   voxels (exec (removeVoxel 100) (runEvents twentyAdds (initialApp ''#00ff00''))) =
     voxels (runEvents twentyAdds (initialApp ''#00ff00'')) \<and>
   historyStep (exec (removeVoxel 100) (runEvents twentyAdds (initialApp ''#00ff00''))) = 19 \<and>
   length (history (exec (removeVoxel 100) (runEvents twentyAdds (initialApp ''#00ff00'')))) = 20 \<and>
   historyStep (exec (removeVoxel (- 1)) exampleApp) = 1 \<and>
   history (exec (removeVoxel (- 1)) exampleApp) = [[0], [0]]"
proof -
  let ?s = "runEvents twentyAdds (initialApp ''#00ff00'')"
  have range: "100 < (0::int) \<or> int (length (voxels ?s)) \<le> 100"
    by (simp add: twentyAdds_state)
  have st: "historyStep ?s = 19" and len: "length (history ?s) = 20"
    by (simp_all add: twentyAdds_state)
  have inv: "- 1 \<le> historyStep ?s \<and> historyStep ?s < int (length (history ?s)) \<and>
      length (history ?s) \<le> 20"
    by (rule cursor_invariant_reachable)
  note full = removeVoxel_invalid_index_records[OF range]
  note full_voxels = full[THEN conjunct2, THEN conjunct1]
  note full_cursor = mp[OF full[THEN conjunct2, THEN conjunct2, THEN conjunct2, THEN conjunct2,
        THEN conjunct2, THEN conjunct2] inv]
  have range2: "- 1 < (0::int) \<or> int (length (voxels exampleApp)) \<le> - 1" by simp
  have inv2: "- 1 \<le> historyStep exampleApp \<and>
      historyStep exampleApp < int (length (history exampleApp)) \<and>
      length (history exampleApp) \<le> 20"
    by (simp add: exampleApp_def)
  note small = removeVoxel_invalid_index_records[OF range2]
  note small_hist = small[THEN conjunct2, THEN conjunct2, THEN conjunct2, THEN conjunct1]
  note small_cursor = mp[OF small[THEN conjunct2, THEN conjunct2, THEN conjunct2, THEN conjunct2,
        THEN conjunct2, THEN conjunct2] inv2]
  have a: "historyStep (exec (removeVoxel 100) ?s) = 19"
    using full_cursor by (simp add: st)
  have b: "length (history (exec (removeVoxel 100) ?s)) = 20"
    using full_cursor by (simp add: st)
  have c: "historyStep (exec (removeVoxel (- 1)) exampleApp) = 1"
    using small_cursor by (simp add: exampleApp_def)
  have d: "history (exec (removeVoxel (- 1)) exampleApp) = [[0], [0]]"
    using small_hist by (simp add: exampleApp_def slice0_def)
  show ?thesis
    using range st len full_voxels a b c d by (intro conjI)
qed

text \<open>
  After twenty adds in a new session the history is full and the cursor is 19. Removing
  at index 100 records once more, and the cursor is still 19: it has not advanced.
\<close>

theorem removeVoxel_full_history_counterexample:
  "int (length (voxels (runEvents twentyAdds (initialApp ''#00ff00'')))) \<le> 100 \<and>
   historyStep (runEvents twentyAdds (initialApp ''#00ff00'')) = 19 \<and>
   historyStep (exec (removeVoxel 100) (runEvents twentyAdds (initialApp ''#00ff00''))) = 19 \<and>
   length (history (runEvents twentyAdds (initialApp ''#00ff00''))) = 20 \<and>
   length (history (exec (removeVoxel 100) (runEvents twentyAdds (initialApp ''#00ff00'')))) = 20"
  by (simp add: twentyAdds_state exec_def removeVoxel_def recordHistory_def slice0_def Let_def
        upt_conv_Cons)

section \<open>No two voxels at one position\<close>

text \<open>
  Claim C5. Starting from the initial, empty store, after every prefix of every sequence
  of events (adds, removals and recolourings, and also picks, clicks through the
  dispatcher, clears, undos, redos and changes of colour or tool) the store holds no two
  voxels with the same position.
\<close>

theorem no_two_voxels_share_a_position:
  "noDuplicatePositions (storeContent (runEvents (take n evs) (initialApp c)))"
  by (intro noDuplicatePositions_appInv appInv_runEvents appInv_initialApp)

theorem no_two_voxels_share_a_position_witness:
  "storeContent (runEvents exampleEvents (initialApp ''#00ff00'')) =
     [\<lparr>position = (1, 0, 0), color = ''#00ff00''\<rparr>, \<lparr>position = (0, 0, 0), color = ''#0000ff''\<rparr>] \<and>
   noDuplicatePositions (storeContent (runEvents (take 6 exampleEvents) (initialApp ''#00ff00'')))"
proof -
  have "storeContent (runEvents exampleEvents (initialApp ''#00ff00'')) =
     [\<lparr>position = (1, 0, 0), color = ''#00ff00''\<rparr>, \<lparr>position = (0, 0, 0), color = ''#0000ff''\<rparr>]"
    by (simp add: exampleEvents_def initialApp_def exec_def addVoxel_def existsAt_def Let_def
          orCurrent_def updateVoxelColor_def nth_js_def removeVoxel_def storeContent_def
          deref_def recordHistory_def slice0_def)
  then show ?thesis
    using no_two_voxels_share_a_position[of 6 exampleEvents "''#00ff00''"] by simp
qed

section \<open>The history holds at most 20 snapshots\<close>

text \<open>
  Claim C6. In every state reached from the initial one the history holds at most 20
  snapshots, and a record never takes a history of at most 20 snapshots beyond 20. When
  it holds 20 with the cursor on the last one, recording a 21st evicts
  the oldest: the history is the old one without its first entry followed by the new
  snapshot, it still holds 20, the cursor is 19 again and every retained entry has moved
  down by one index. From there \<open>k\<close> undos put the cursor at \<open>19 - k\<close> but never below 0;
  the store after \<open>k \<le> 19\<close> undos is the old entry \<open>20 - k\<close>, so the evicted entry 0 is
  never reached; and undos beyond the 19th change nothing: undo reaches back 19 steps,
  which is at most 20.
\<close>

theorem history_capped_at_20:
  "length (history (runEvents evs (initialApp c))) \<le> 20 \<and>
   (length (history s) \<le> 20 \<longrightarrow> length (history (recordHistory v s)) \<le> 20) \<and>
   (length (history s) = 20 \<and> historyStep s = 19 \<longrightarrow>
      history (recordHistory v s) = tl (history s) @ [v] \<and>
      length (history (recordHistory v s)) = 20 \<and>
      historyStep (recordHistory v s) = 19 \<and>
      (\<forall>i<19. history (recordHistory v s) ! i = history s ! Suc i) \<and>
      (\<forall>k. historyStep (undoTimes k (recordHistory v s)) = max 0 (19 - int k)) \<and>
      (\<forall>k. 1 \<le> k \<and> k \<le> 19 \<longrightarrow>
             voxels (undoTimes k (recordHistory v s)) = history s ! (20 - k)) \<and>
      (\<forall>k\<ge>19. undoTimes k (recordHistory v s) = undoTimes 19 (recordHistory v s)))"
proof (intro conjI)
  show "length (history (runEvents evs (initialApp c))) \<le> 20"
    using appInv_runEvents[OF appInv_initialApp, of evs c] by (simp add: appInv_def)
  show "length (history s) \<le> 20 \<longrightarrow> length (history (recordHistory v s)) \<le> 20"
    by (rule impI) (rule recordHistory_length)
  show "length (history s) = 20 \<and> historyStep s = 19 \<longrightarrow>
      history (recordHistory v s) = tl (history s) @ [v] \<and>
      length (history (recordHistory v s)) = 20 \<and>
      historyStep (recordHistory v s) = 19 \<and>
      (\<forall>i<19. history (recordHistory v s) ! i = history s ! Suc i) \<and>
      (\<forall>k. historyStep (undoTimes k (recordHistory v s)) = max 0 (19 - int k)) \<and>
      (\<forall>k. 1 \<le> k \<and> k \<le> 19 \<longrightarrow>
             voxels (undoTimes k (recordHistory v s)) = history s ! (20 - k)) \<and>
      (\<forall>k\<ge>19. undoTimes k (recordHistory v s) = undoTimes 19 (recordHistory v s))"
    by (rule impI, elim conjE, rule record_on_full_history; assumption)
qed

theorem history_capped_at_20_witness:
  "length (history fullHistoryApp) = 20 \<and> historyStep fullHistoryApp = 19 \<and>
   history (recordHistory [0..<20] fullHistoryApp) = tl (history fullHistoryApp) @ [[0..<20]] \<and>
   length (history (recordHistory [0..<20] fullHistoryApp)) = 20 \<and>
   historyStep (undoTimes 19 (recordHistory [0..<20] fullHistoryApp)) = 0 \<and>
   historyStep (undoTimes 25 (recordHistory [0..<20] fullHistoryApp)) = 0 \<and>
   voxels (undoTimes 19 (recordHistory [0..<20] fullHistoryApp)) = history fullHistoryApp ! 1"
proof -
  have a: "length (history fullHistoryApp) = 20 \<and> historyStep fullHistoryApp = 19"
    by (simp add: fullHistoryApp_def)
  note all = history_capped_at_20[of "[]" "''''" fullHistoryApp "[0..<20]"]
  note big = mp[OF all[THEN conjunct2, THEN conjunct2] a]
  note c1 = big[THEN conjunct1]
  note r1 = big[THEN conjunct2]
  note c2 = r1[THEN conjunct1]
  note r4 = r1[THEN conjunct2, THEN conjunct2, THEN conjunct2]
  note c5 = r4[THEN conjunct1]
  note c6 = r4[THEN conjunct2, THEN conjunct1]
  show ?thesis
    using a c1 c2 c5[THEN spec, of 19] c5[THEN spec, of 25] c6[THEN spec, of 19] by simp
qed

section \<open>Undo after a record\<close>

text \<open>
  Claim C1, as amended. Let \<open>s\<close> be any state reached from the initial one by any
  sequence of events, in which a snapshot has been recorded (cursor at least 0). Then an
  undo right after an add at a free cell, after a removal, or after a confirmed clear
  gives back exactly the store content (positions and colours) that \<open>s\<close> had. Since \<open>s\<close>
  is arbitrary this holds at every step of a session, however long, also once the
  history is full. Moreover up to 19 such edits in a row are undone by as many undos:
  the content is that of \<open>s\<close> again.
\<close>

theorem undo_after_record_restores:
  assumes "s = runEvents evs (initialApp c)" and "0 \<le> historyStep s"
  shows "(\<not> existsAt p s \<longrightarrow>
            storeContent (exec undo (exec (addVoxel p col) s)) = storeContent s) \<and>
         storeContent (exec undo (exec (removeVoxel i) s)) = storeContent s \<and>
         storeContent (exec undo (exec (handleClear True) s)) = storeContent s \<and>
         (allRecord es s \<and> length es \<le> 19 \<longrightarrow>
            storeContent (undoTimes (length es) (runEvents es s)) = storeContent s)"
proof -
  have inv: "appInv s"
    unfolding assms(1) by (intro appInv_runEvents appInv_initialApp)
  show ?thesis
    using undo_restores_add[OF inv assms(2)] undo_restores_remove[OF inv assms(2)]
      undo_restores_clear[OF inv assms(2)] undo_many_restores[OF inv assms(2)]
    by simp
qed

theorem undo_after_record_restores_witness:
  "0 \<le> historyStep (runEvents exampleEvents (initialApp ''#00ff00'')) \<and>
   \<not> existsAt (2, 0, 0) (runEvents exampleEvents (initialApp ''#00ff00'')) \<and>
   allRecord [AddVoxel (2, 0, 0) None, RemoveVoxel 0]
     (runEvents exampleEvents (initialApp ''#00ff00'')) \<and>
   storeContent (exec undo (exec (addVoxel (2, 0, 0) None)
       (runEvents exampleEvents (initialApp ''#00ff00'')))) =
     [\<lparr>position = (1, 0, 0), color = ''#00ff00''\<rparr>, \<lparr>position = (0, 0, 0), color = ''#0000ff''\<rparr>] \<and>
   storeContent (exec undo (exec (removeVoxel 0)
       (runEvents exampleEvents (initialApp ''#00ff00'')))) =
     [\<lparr>position = (1, 0, 0), color = ''#00ff00''\<rparr>, \<lparr>position = (0, 0, 0), color = ''#0000ff''\<rparr>] \<and>
   storeContent (undoTimes 2 (runEvents [AddVoxel (2, 0, 0) None, RemoveVoxel 0]
       (runEvents exampleEvents (initialApp ''#00ff00'')))) =
     [\<lparr>position = (1, 0, 0), color = ''#00ff00''\<rparr>, \<lparr>position = (0, 0, 0), color = ''#0000ff''\<rparr>]"
proof -
  let ?s = "runEvents exampleEvents (initialApp ''#00ff00'')"
  have cur: "0 \<le> historyStep ?s"
    by (simp add: exampleEvents_state)
  have free: "\<not> existsAt (2, 0, 0) ?s"
    by (simp add: exampleEvents_state existsAt_def)
  have rec: "allRecord [AddVoxel (2, 0, 0) None, RemoveVoxel 0] ?s"
    using free by simp
  have len: "length [AddVoxel (2, 0, 0) None, RemoveVoxel 0] = 2" by simp
  have content: "storeContent ?s =
     [\<lparr>position = (1, 0, 0), color = ''#00ff00''\<rparr>, \<lparr>position = (0, 0, 0), color = ''#0000ff''\<rparr>]"
    by (simp add: exampleEvents_state storeContent_def deref_def)
  show ?thesis
    using undo_after_record_restores[OF refl cur,
        of "(2, 0, 0)" None 0 "[AddVoxel (2, 0, 0) None, RemoveVoxel 0]"] cur free rec
    by (simp only: content len simp_thms)
qed

text \<open>
  In the initial state nothing has been recorded. The first add records the first
  snapshot at index 0, where \<open>undo\<close> (guarded by \<open>historyStep > 0\<close>) does nothing: the
  store keeps the added voxel and the empty content is not restored.
\<close>

theorem undo_after_record_counterexample:
  "storeContent (initialApp ''#00ff00'') = [] \<and>
   \<not> existsAt (0, 0, 0) (initialApp ''#00ff00'') \<and>
   storeContent (exec undo (exec (addVoxel (0, 0, 0) None) (initialApp ''#00ff00''))) =
     [\<lparr>position = (0, 0, 0), color = ''#00ff00''\<rparr>] \<and>
   storeContent (exec undo (exec (addVoxel (0, 0, 0) None) (initialApp ''#00ff00''))) \<noteq>
     storeContent (initialApp ''#00ff00'')"
  by (simp add: initialApp_def existsAt_def exec_def addVoxel_def Let_def orCurrent_def
        recordHistory_def slice0_def undo_def storeContent_def deref_def)

text \<open>
  A recolouring writes the colour into the voxel object that the earlier snapshots hold
  too, so the snapshot an undo goes back to shows the new colour: here the voxel was
  red, is painted green, and is still green after the undo.
\<close>

lemma updateVoxelColor_undo_keeps_new_color:
  "storeContent exampleApp = [\<lparr>position = (0, 0, 0), color = ''#ff0000''\<rparr>] \<and>
   storeContent (exec (updateVoxelColor 0) exampleApp) =
     [\<lparr>position = (0, 0, 0), color = ''#00ff00''\<rparr>] \<and>
   storeContent (exec undo (exec (updateVoxelColor 0) exampleApp)) =
     [\<lparr>position = (0, 0, 0), color = ''#00ff00''\<rparr>]"
  by (simp add: exampleApp_def exec_def updateVoxelColor_def nth_js_def Let_def
        recordHistory_def slice0_def undo_def storeContent_def deref_def)

section \<open>Recolouring the staged preview\<close>




end
